theory Spec2Isabelle
  imports Main "HOL-Library.Sublist"
begin

section \<open>FrameNavigationsObserver: data model\<close>

text \<open>
  The observer of \<^verbatim>\<open>src/unnamed/part_001\<close> (class \<^verbatim>\<open>FrameNavigationsObserver\<close>) reads a
  navigation timeline (\<^verbatim>\<open>FrameNavigations\<close>), keeps at most one pending status trigger and
  resolves it on status-change notifications. Objects that the class shares with its callers
  (deferred results, runtime timers) live in an explicit store; every method takes the state
  and returns the new one.
\<close>

text \<open>
  Modelled from the spec: the enum \<^verbatim>\<open>LoadStatus\<close> of \<^verbatim>\<open>hero-interfaces/Location\<close> is not
  in src. The members are the ones the source names; \<open>OtherLoadStatus\<close> stands for every
  member that the source does not name.
\<close>

datatype LoadStatus =
  HttpRedirected | HttpResponded | DomContentLoaded | AllContentLoaded | PaintingStable
  | OtherLoadStatus string

datatype LocationTrigger = change | reload

text \<open>\<^verbatim>\<open>LocationStatus\<close>: a load status or a location trigger.\<close>

datatype LocationStatus = Load LoadStatus | Trigger LocationTrigger

text \<open>Keys of a navigation's \<^verbatim>\<open>statusChanges\<close> map: a load status, or \<^verbatim>\<open>ContentPaint\<close>.\<close>

datatype NavigationStatus = Status LoadStatus | ContentPaint

text \<open>
  \<^verbatim>\<open>LoadStatusPipeline\<close> (the rank table, not in src) is a parameter of the functions that read
  it: \<open>None\<close> is JavaScript's \<^verbatim>\<open>undefined\<close> for a key the table does not have.
\<close>

type_synonym Pipeline = "NavigationStatus \<Rightarrow> nat option"

datatype Error =
  InvalidStatus
  | NotImplemented
  | CanceledPromiseError string
  | TimeoutError
  | NavigationError string
  | TypeError

text \<open>
  A JavaScript number as far as the source looks at it: \<^verbatim>\<open>Number.isInteger\<close> and
  truthiness. \<open>Fraction\<close> is any finite number that is not an integer.
\<close>

datatype JsNumber = Integer int | Fraction | Infinity | NaN

fun truthy :: "JsNumber option \<Rightarrow> bool" where
  "truthy None = False"
| "truthy (Some (Integer i)) = (i \<noteq> 0)"
| "truthy (Some Fraction) = True"
| "truthy (Some Infinity) = True"
| "truthy (Some NaN) = False"

fun Number_isInteger :: "JsNumber option \<Rightarrow> bool" where
  "Number_isInteger (Some (Integer i)) = True"
| "Number_isInteger _ = False"

record IWaitForOptions =
  timeoutMs :: "int option"
  sinceCommandId :: "JsNumber option"

record ICommandMeta =
  id_cmd :: int
  name_cmd :: string

text \<open>
  References to deferred results, in one store. A navigation's \<^verbatim>\<open>resourceId\<close> deferred
  (\<^verbatim>\<open>IResolvablePromise<number>\<close>) is created by the timeline, a status trigger's deferred
  (\<^verbatim>\<open>IResolvablePromise<void>\<close>) by the observer; a field of one type holds the number of a
  deferred of its kind.
\<close>

datatype Ref = ResourceIdRef nat | StatusRef nat

datatype PromiseState = Pending | Fulfilled "int option" | Rejected Error

record Navigation =
  startCommandId :: int
  finalUrl :: string
  navigationReason :: string
  statusChanges :: "(NavigationStatus \<times> nat) list"
  resourceId :: nat
  navigationError :: "Error option"

record PaintStableStatus =
  isStable :: bool
  timeUntilReadyMs :: "int option"

text \<open>
  What the observer reads of \<^verbatim>\<open>FrameNavigations\<close> (not in src) at one moment: the fields
  \<^verbatim>\<open>top\<close> and \<^verbatim>\<open>history\<close> and the answers of its two queries.
\<close>

record FrameNavigations =
  top_nav :: "Navigation option"
  history :: "Navigation list"
  hasLoadStatus :: "LoadStatus \<Rightarrow> bool"
  getPaintStableStatus :: PaintStableStatus

text \<open>
  The fields of the class, then the runtime objects it acts on: the deferred results
  (\<open>promises\<close>), the calls of \<^verbatim>\<open>reject\<close> made so far (\<open>rejections\<close>), the timeout of every
  status deferred created (\<open>created\<close>; \<open>StatusRef k\<close> is the \<open>k\<close>-th), and the armed
  settlement timers with their delays (\<open>timers\<close>).
\<close>

record Observer =
  defaultWaitForLocationCommandId :: int
  waitingForLoadTimeout :: "nat option"
  resourceIdResolvable :: "nat option"
  statusTriggerResolvable :: "nat option"
  statusTrigger :: "LocationStatus option"
  statusTriggerStartCommandId :: "int option"
  promises :: "Ref \<Rightarrow> PromiseState"
  rejections :: "(Ref \<times> Error) list"
  created :: "int list"
  timers :: "(nat \<times> int) list"
  nextTimer :: nat

definition newObserver :: Observer where
  "newObserver =
     \<lparr> defaultWaitForLocationCommandId = 0,
       waitingForLoadTimeout = None,
       resourceIdResolvable = None,
       statusTriggerResolvable = None,
       statusTrigger = None,
       statusTriggerStartCommandId = None,
       promises = (\<lambda>r. Pending),
       rejections = [],
       created = [],
       timers = [],
       nextTimer = 0 \<rparr>"

section \<open>Runtime primitives\<close>

definition isResolved :: "Observer \<Rightarrow> Ref \<Rightarrow> bool" where
  "isResolved s r = (promises s r \<noteq> Pending)"

text \<open>
  Modelled from the spec: \<^verbatim>\<open>createPromise\<close> and the deferred it returns
  (\<^verbatim>\<open>commons/lib/utils\<close>) are not in src. A deferred holds one of pending, resolved,
  rejected and changes state exactly once; it is created with a timeout.
\<close>

definition createPromise :: "int \<Rightarrow> Observer \<Rightarrow> nat \<times> Observer" where
  "createPromise timeoutMillis s =
     (let k = length (created s)
      in (k, s\<lparr> promises := (promises s)(StatusRef k := Pending),
                created := created s @ [timeoutMillis] \<rparr>))"

definition resolve :: "Ref \<Rightarrow> Observer \<Rightarrow> Observer" where
  "resolve r s =
     (if promises s r = Pending then s\<lparr> promises := (promises s)(r := Fulfilled None) \<rparr> else s)"

definition reject :: "Ref \<Rightarrow> Error \<Rightarrow> Observer \<Rightarrow> Observer" where
  "reject r e s =
     (let s' = s\<lparr> rejections := rejections s @ [(r, e)] \<rparr>
      in if promises s r = Pending then s'\<lparr> promises := (promises s)(r := Rejected e) \<rparr> else s')"

text \<open>\<^verbatim>\<open>clearTimeout(handle)\<close>: an undefined or fired handle is ignored.\<close>

definition clearTimeout :: "nat option \<Rightarrow> Observer \<Rightarrow> Observer" where
  "clearTimeout h s =
     (case h of None \<Rightarrow> s
      | Some t \<Rightarrow> s\<lparr> timers := filter (\<lambda>x. fst x \<noteq> t) (timers s) \<rparr>)"

text \<open>\<^verbatim>\<open>setTimeout(callback, delay)\<close>: arms a timer under a fresh handle.\<close>

definition setTimeout :: "int \<Rightarrow> Observer \<Rightarrow> nat \<times> Observer" where
  "setTimeout delay s =
     (nextTimer s, s\<lparr> timers := timers s @ [(nextTimer s, delay)], nextTimer := Suc (nextTimer s) \<rparr>)"

section \<open>willRunCommand\<close>

definition startsWith :: "string \<Rightarrow> string \<Rightarrow> bool" where
  "startsWith str pre = prefix pre str"

text \<open>The loop over \<^verbatim>\<open>previousCommands\<close>; it returns \<^verbatim>\<open>last\<close> and the cursor.\<close>

fun willRunCommandLoop ::
  "ICommandMeta option \<Rightarrow> int \<Rightarrow> ICommandMeta list \<Rightarrow> ICommandMeta option \<times> int" where
  "willRunCommandLoop last_cmd cursor [] = (last_cmd, cursor)"
| "willRunCommandLoop last_cmd cursor (command # rest) =
     (let c1 = (if name_cmd command = ''goto'' then id_cmd command else cursor);
          c2 = (if (case last_cmd of None \<Rightarrow> False
                    | Some l \<Rightarrow> startsWith (name_cmd l) ''waitFor'')
                   \<and> \<not> startsWith (name_cmd command) ''waitFor''
                then id_cmd command else c1)
      in willRunCommandLoop (Some command) c2 rest)"

definition willRunCommand :: "ICommandMeta \<Rightarrow> ICommandMeta list \<Rightarrow> Observer \<Rightarrow> Observer" where
  "willRunCommand newCommand previousCommands s =
     (case willRunCommandLoop None (defaultWaitForLocationCommandId s) previousCommands of
        (last_cmd, cursor) \<Rightarrow>
          (if name_cmd newCommand = ''waitForLocation''
              \<and> (case last_cmd of None \<Rightarrow> False
                  | Some l \<Rightarrow> startsWith (name_cmd l) ''waitFor''
                              \<and> name_cmd l \<noteq> ''waitForMillis'')
           then s\<lparr> defaultWaitForLocationCommandId := id_cmd newCommand \<rparr>
           else s\<lparr> defaultWaitForLocationCommandId := cursor \<rparr>))"

section \<open>hasLocationTrigger\<close>

text \<open>
  \<^verbatim>\<open>str.replace(pattern, '')\<close> with a string pattern: the first occurrence of the pattern
  is deleted, and a string without the pattern is returned as it is.
\<close>

fun replace_first :: "string \<Rightarrow> string \<Rightarrow> string" where
  "replace_first [] pattern = []"
| "replace_first (c # cs) pattern =
     (if prefix pattern (c # cs) then drop (length pattern) (c # cs)
      else c # replace_first cs pattern)"

definition isNavigationReload :: "string \<Rightarrow> bool" where
  "isNavigationReload reason =
     (reason = ''httpHeaderRefresh'' \<or> reason = ''metaTagRefresh'' \<or> reason = ''reload'')"

definition has_status :: "Navigation \<Rightarrow> NavigationStatus \<Rightarrow> bool" where
  "has_status nav st = (st \<in> set (map fst (statusChanges nav)))"

text \<open>
  The loop over the history, with \<^verbatim>\<open>previousLoadedUrl\<close> as an argument (\<open>None\<close> is
  \<^verbatim>\<open>undefined\<close>; the empty string is falsy).
\<close>

fun hasLocationTriggerLoop ::
  "LocationTrigger \<Rightarrow> int \<Rightarrow> string option \<Rightarrow> Navigation list \<Rightarrow> bool" where
  "hasLocationTriggerLoop trigger since previousLoadedUrl [] = False"
| "hasLocationTriggerLoop trigger since previousLoadedUrl (h # rest) =
     (let isMatch = (startCommandId h \<ge> since);
          isLocationChange =
            (if isMatch then
               (let c1 = (if trigger = reload then isNavigationReload (navigationReason h)
                          else False)
                in (case previousLoadedUrl of
                      None \<Rightarrow> c1
                    | Some p \<Rightarrow>
                        if trigger = change \<and> p \<noteq> [] \<and> p \<noteq> finalUrl h then
                          (let isInPageUrlAdjust =
                                 (navigationReason h = ''inPage''
                                  \<and> length (replace_first (finalUrl h) p) \<le> 1)
                           in if \<not> isInPageUrlAdjust then True else c1)
                        else c1))
             else False)
      in if isLocationChange then True
         else hasLocationTriggerLoop trigger since
                (if (has_status h (Status HttpResponded) \<or> has_status h (Status DomContentLoaded))
                    \<and> \<not> has_status h (Status HttpRedirected)
                 then Some (finalUrl h) else previousLoadedUrl)
                rest)"

definition hasLocationTrigger :: "FrameNavigations \<Rightarrow> LocationTrigger \<Rightarrow> int \<Rightarrow> bool" where
  "hasLocationTrigger navigations trigger since =
     hasLocationTriggerLoop trigger since None (history navigations)"

section \<open>Resolving and cancelling the pending trigger\<close>

text \<open>
  \<^verbatim>\<open>resolvePendingStatus(resolvedWithStatus)\<close>; the argument is only logged and is left
  out.
\<close>

definition resolvePendingStatus :: "Observer \<Rightarrow> Observer" where
  "resolvePendingStatus s =
     (case statusTriggerResolvable s of
        None \<Rightarrow> s
      | Some k \<Rightarrow>
          if \<not> isResolved s (StatusRef k) then
            (let s1 = clearTimeout (waitingForLoadTimeout s) s;
                 s2 = resolve (StatusRef k) s1
             in s2\<lparr> statusTriggerResolvable := None,
                     statusTrigger := None,
                     statusTriggerStartCommandId := None \<rparr>)
          else s)"

text \<open>The body of the loop of \<^verbatim>\<open>cancelWaiting\<close>, for one of the two tracked deferreds.\<close>

definition cancelPromise :: "string \<Rightarrow> Ref option \<Rightarrow> Observer \<Rightarrow> Observer" where
  "cancelPromise cancelMessage promise s =
     (case promise of
        None \<Rightarrow> s
      | Some r \<Rightarrow> if isResolved s r then s else reject r (CanceledPromiseError cancelMessage) s)"

definition cancelWaiting :: "string \<Rightarrow> Observer \<Rightarrow> Observer" where
  "cancelWaiting cancelMessage s =
     (let s1 = clearTimeout (waitingForLoadTimeout s) s
      in fold (cancelPromise cancelMessage)
              [map_option ResourceIdRef (resourceIdResolvable s1),
               map_option StatusRef (statusTriggerResolvable s1)] s1)"

definition createStatusTriggeredPromise ::
  "LocationStatus \<Rightarrow> int option \<Rightarrow> int option \<Rightarrow> Observer \<Rightarrow> nat \<times> Observer" where
  "createStatusTriggeredPromise status timeout_ms since s =
     (let s1 = (if statusTriggerResolvable s \<noteq> None
                then cancelWaiting ''New location trigger created'' s else s);
          s2 = s1\<lparr> statusTrigger := Some status, statusTriggerStartCommandId := since \<rparr>
      in case createPromise (case timeout_ms of None \<Rightarrow> 60000 | Some t \<Rightarrow> t) s2 of
           (r, s3) \<Rightarrow> (r, s3\<lparr> statusTriggerResolvable := Some r \<rparr>))"

section \<open>Status-change re-evaluation\<close>

text \<open>
  A void method returns the error it throws, if any, and the state it leaves behind.
  \<^verbatim>\<open>this.navigations.top.statusChanges\<close> throws a TypeError when there is no top entry.
\<close>

definition waitForPageLoaded :: "FrameNavigations \<Rightarrow> Observer \<Rightarrow> Error option \<times> Observer" where
  "waitForPageLoaded navigations s =
     (let s1 = clearTimeout (waitingForLoadTimeout s) s;
          st = getPaintStableStatus navigations;
          s2 = (if isStable st then resolvePendingStatus s1 else s1)
      in case timeUntilReadyMs st of
           None \<Rightarrow> (None, s2)
         | Some delay \<Rightarrow>
             if \<not> isStable st \<and> delay \<noteq> 0 then
               (case top_nav navigations of
                  None \<Rightarrow> (Some TypeError, s2)
                | Some t \<Rightarrow>
                    (case setTimeout delay s2 of
                       (h, s3) \<Rightarrow> (None, s3\<lparr> waitingForLoadTimeout := Some h \<rparr>)))
             else (None, s2))"

text \<open>
  The loop over the keys of \<^verbatim>\<open>top.statusChanges\<close>, in insertion order: the first status
  that resolves a trigger of rank \<open>loadTrigger\<close>, if there is one.
\<close>

fun scanStatusChanges :: "Pipeline \<Rightarrow> nat \<Rightarrow> NavigationStatus list \<Rightarrow> NavigationStatus option" where
  "scanStatusChanges pl loadTrigger [] = None"
| "scanStatusChanges pl loadTrigger (status # rest) =
     (if status = Status HttpRedirected then scanStatusChanges pl loadTrigger rest
      else
        (let pipelineStatus =
               (if status = Status AllContentLoaded then pl (Status AllContentLoaded)
                else pl status)
         in if (case pipelineStatus of None \<Rightarrow> False | Some k \<Rightarrow> k \<ge> loadTrigger)
            then Some status
            else scanStatusChanges pl loadTrigger rest))"

text \<open>
  \<^verbatim>\<open>onLoadStatusChange\<close>. A location trigger registered without a start command id
  compares every \<^verbatim>\<open>startCommandId\<close> with \<^verbatim>\<open>undefined\<close> and never matches.
  \<^verbatim>\<open>!loadTrigger\<close> holds for a missing rank and for rank 0.
\<close>

definition onLoadStatusChange ::
  "Pipeline \<Rightarrow> FrameNavigations \<Rightarrow> Observer \<Rightarrow> Error option \<times> Observer" where
  "onLoadStatusChange pl navigations s =
     (case statusTrigger s of
        Some (Trigger t) \<Rightarrow>
          (if (case statusTriggerStartCommandId s of
                 None \<Rightarrow> False
               | Some c \<Rightarrow> hasLocationTrigger navigations t c)
           then (None, resolvePendingStatus s)
           else (None, s))
      | Some (Load st) \<Rightarrow>
          (case statusTriggerResolvable s of
             None \<Rightarrow> (None, s)
           | Some r \<Rightarrow>
               (case pl (Status st) of
                  None \<Rightarrow> (None, s)
                | Some loadTrigger \<Rightarrow>
                    if isResolved s (StatusRef r) \<or> loadTrigger = 0 then (None, s)
                    else if st = PaintingStable then waitForPageLoaded navigations s
                    else
                      (case top_nav navigations of
                         None \<Rightarrow> (Some TypeError, s)
                       | Some t \<Rightarrow>
                           (case scanStatusChanges pl loadTrigger (map fst (statusChanges t)) of
                              None \<Rightarrow> (None, s)
                            | Some status \<Rightarrow> (None, resolvePendingStatus s)))))
      | None \<Rightarrow> (None, s))"

section \<open>The public wait methods\<close>

text \<open>
  What a wait method hands back: a value that is already resolved, or the deferred of the
  trigger it registered.
\<close>

datatype WaitResult = AlreadyResolved | Waiting nat

definition waitForLocation ::
  "FrameNavigations \<Rightarrow> LocationStatus \<Rightarrow> IWaitForOptions \<Rightarrow> Observer
     \<Rightarrow> (Error + WaitResult) \<times> Observer" where
  "waitForLocation navigations status options s =
     (case status of
        Load st \<Rightarrow> (Inl InvalidStatus, s)
      | Trigger t \<Rightarrow>
          (let since = (case sinceCommandId options of
                          Some (Integer i) \<Rightarrow> i
                        | _ \<Rightarrow> defaultWaitForLocationCommandId s)
           in if hasLocationTrigger navigations t since then (Inr AlreadyResolved, s)
              else
                (case createStatusTriggeredPromise status (timeoutMs options) (Some since) s of
                   (r, s') \<Rightarrow> (Inr (Waiting r), s'))))"

definition waitForLoad ::
  "Pipeline \<Rightarrow> FrameNavigations \<Rightarrow> LocationStatus \<Rightarrow> IWaitForOptions \<Rightarrow> Observer
     \<Rightarrow> (Error + WaitResult) \<times> Observer" where
  "waitForLoad pl navigations status options s =
     (case status of
        Trigger t \<Rightarrow> (Inl InvalidStatus, s)
      | Load st \<Rightarrow>
          if truthy (sinceCommandId options) then (Inl NotImplemented, s)
          else if hasLoadStatus navigations st then (Inr AlreadyResolved, s)
          else
            (case createStatusTriggeredPromise status (timeoutMs options) None s of
               (r, s1) \<Rightarrow>
                 (case top_nav navigations of
                    None \<Rightarrow> (Inr (Waiting r), s1)
                  | Some t \<Rightarrow>
                      (case onLoadStatusChange pl navigations s1 of
                         (None, s2) \<Rightarrow> (Inr (Waiting r), s2)
                       | (Some e, s2) \<Rightarrow> (Inl e, s2)))))"

definition waitForReady ::
  "Pipeline \<Rightarrow> FrameNavigations \<Rightarrow> Observer \<Rightarrow> (Error + WaitResult) \<times> Observer" where
  "waitForReady pl navigations s =
     waitForLoad pl navigations (Load DomContentLoaded)
       \<lparr> timeoutMs = None, sinceCommandId = None \<rparr> s"

text \<open>
  \<^verbatim>\<open>waitForNavigationResourceId\<close> is asynchronous. Its synchronous part stores the top
  entry's deferred in \<^verbatim>\<open>resourceIdResolvable\<close>; \<open>awaitNavigationResourceId\<close> is what the
  caller gets once the awaited deferred has settled (\<open>None\<close> while it is pending),
  \<open>top_entry\<close> being the entry captured at the call, read again after the await.
\<close>

definition waitForNavigationResourceId :: "FrameNavigations \<Rightarrow> Observer \<Rightarrow> Observer" where
  "waitForNavigationResourceId navigations s =
     s\<lparr> resourceIdResolvable := map_option resourceId (top_nav navigations) \<rparr>"

definition awaitNavigationResourceId ::
  "Navigation option \<Rightarrow> Observer \<Rightarrow> (Error + int option) option" where
  "awaitNavigationResourceId top_entry s =
     (case top_entry of
        None \<Rightarrow> Some (Inr None)
      | Some t \<Rightarrow>
          (case promises s (ResourceIdRef (resourceId t)) of
             Pending \<Rightarrow> None
           | Rejected e \<Rightarrow> Some (Inl e)
           | Fulfilled v \<Rightarrow>
               (case navigationError t of
                  Some e \<Rightarrow> Some (Inl e)
                | None \<Rightarrow> Some (Inr v))))"

section \<open>Events\<close>

text \<open>
  The settlement timer's callback (\<^verbatim>\<open>resolvePendingStatus\<close>) runs when an armed timer
  fires; a timer that was cleared does not fire.
\<close>

definition timerFires :: "nat \<Rightarrow> Observer \<Rightarrow> Observer" where
  "timerFires h s =
     (if h \<in> set (map fst (timers s))
      then resolvePendingStatus (s\<lparr> timers := filter (\<lambda>x. fst x \<noteq> h) (timers s) \<rparr>)
      else s)"

text \<open>
  Modelled from the spec: the timeout of a deferred (part of \<^verbatim>\<open>createPromise\<close>, not in src)
  rejects it with a timeout error, if it is still pending.
\<close>

definition promiseTimesOut :: "Ref \<Rightarrow> Observer \<Rightarrow> Observer" where
  "promiseTimesOut r s =
     (if promises s r = Pending then s\<lparr> promises := (promises s)(r := Rejected TimeoutError) \<rparr>
      else s)"

text \<open>
  The timeline settles the \<^verbatim>\<open>resourceId\<close> deferred of a navigation: with the resource id, or
  with a navigation error.
\<close>

definition resourceIdSettles :: "nat \<Rightarrow> Error + int \<Rightarrow> Observer \<Rightarrow> Observer" where
  "resourceIdSettles n outcome s =
     (if promises s (ResourceIdRef n) = Pending
      then s\<lparr> promises := (promises s)
                 (ResourceIdRef n := (case outcome of Inl e \<Rightarrow> Rejected e
                                      | Inr v \<Rightarrow> Fulfilled (Some v))) \<rparr>
      else s)"

text \<open>
  Everything that can happen to an observer, and the state after it. A method that throws
  leaves the state it had reached.
\<close>

datatype Event =
  WillRunCommand ICommandMeta "ICommandMeta list"
  | WaitForLocation FrameNavigations LocationStatus IWaitForOptions
  | WaitForLoad FrameNavigations LocationStatus IWaitForOptions
  | WaitForReady FrameNavigations
  | WaitForNavigationResourceId FrameNavigations
  | CancelWaiting string
  | StatusChange FrameNavigations
  | TimerFires nat
  | PromiseTimesOut Ref
  | ResourceIdSettles nat "Error + int"

fun step :: "Pipeline \<Rightarrow> Event \<Rightarrow> Observer \<Rightarrow> Observer" where
  "step pl (WillRunCommand c cs) s = willRunCommand c cs s"
| "step pl (WaitForLocation n st opts) s = snd (waitForLocation n st opts s)"
| "step pl (WaitForLoad n st opts) s = snd (waitForLoad pl n st opts s)"
| "step pl (WaitForReady n) s = snd (waitForReady pl n s)"
| "step pl (WaitForNavigationResourceId n) s = waitForNavigationResourceId n s"
| "step pl (CancelWaiting msg) s = cancelWaiting msg s"
| "step pl (StatusChange n) s = snd (onLoadStatusChange pl n s)"
| "step pl (TimerFires h) s = timerFires h s"
| "step pl (PromiseTimesOut r) s = promiseTimesOut r s"
| "step pl (ResourceIdSettles n outcome) s = resourceIdSettles n outcome s"

definition run :: "Pipeline \<Rightarrow> Event list \<Rightarrow> Observer \<Rightarrow> Observer" where
  "run pl events s = fold (step pl) events s"

section \<open>Notions the properties are stated with\<close>

text \<open>Neighbouring pairs of a list, in order.\<close>

definition adjacent :: "'a list \<Rightarrow> ('a \<times> 'a) list" where
  "adjacent xs = zip xs (tl xs)"

text \<open>
  The commands of a list that set the cursor: a \<^verbatim>\<open>goto\<close>, or a command that is not a
  \<^verbatim>\<open>waitFor\<close> directly after one that is (\<open>last_cmd\<close> is the command before the list).
\<close>

definition setsCursor :: "ICommandMeta option \<Rightarrow> ICommandMeta list \<Rightarrow> bool" where
  "setsCursor last_cmd cmds =
     (list_ex (\<lambda>c. name_cmd c = ''goto'') cmds
      \<or> list_ex (\<lambda>(a, b). startsWith (name_cmd a) ''waitFor''
                          \<and> \<not> startsWith (name_cmd b) ''waitFor'')
           (adjacent (case last_cmd of None \<Rightarrow> cmds | Some l \<Rightarrow> l # cmds)))"

text \<open>
  The command sequence anchors the cursor: some prior command sets it, or the new command
  is a \<^verbatim>\<open>waitForLocation\<close> directly after a \<^verbatim>\<open>waitFor\<close> other than \<^verbatim>\<open>waitForMillis\<close>.
\<close>

definition anchorsCursor :: "ICommandMeta \<Rightarrow> ICommandMeta list \<Rightarrow> bool" where
  "anchorsCursor newCommand previousCommands =
     (setsCursor None previousCommands
      \<or> (name_cmd newCommand = ''waitForLocation'' \<and> previousCommands \<noteq> []
          \<and> startsWith (name_cmd (last previousCommands)) ''waitFor''
          \<and> name_cmd (last previousCommands) \<noteq> ''waitForMillis''))"

text \<open>The deferreds that the observer tracks: the resource id's and the status trigger's.\<close>

definition tracked :: "Observer \<Rightarrow> Ref list" where
  "tracked s =
     (case resourceIdResolvable s of None \<Rightarrow> [] | Some n \<Rightarrow> [ResourceIdRef n])
     @ (case statusTriggerResolvable s of None \<Rightarrow> [] | Some k \<Rightarrow> [StatusRef k])"

text \<open>
  The scope anchor of a location wait, in the specification's words:
  \<^verbatim>\<open>options.sinceCommandId\<close> if it is an integer, else the default cursor.
\<close>

definition scopeAnchor :: "IWaitForOptions \<Rightarrow> Observer \<Rightarrow> int" where
  "scopeAnchor options s =
     (if Number_isInteger (sinceCommandId options)
      then (case sinceCommandId options of Some (Integer i) \<Rightarrow> i | _ \<Rightarrow> 0)
      else defaultWaitForLocationCommandId s)"

text \<open>
  At most one settlement timer is armed, and it is the one whose handle the observer holds
  in \<^verbatim>\<open>waitingForLoadTimeout\<close>.
\<close>

definition oneTimer :: "Observer \<Rightarrow> bool" where
  "oneTimer s =
     (case timers s of
        [] \<Rightarrow> True
      | [x] \<Rightarrow> waitingForLoadTimeout s = Some (fst x)
      | _ \<Rightarrow> False)"

text \<open>
  The previous settled URL, in the specification's words: the final URL of the most recent
  entry that reached \<^verbatim>\<open>HttpResponded\<close> or \<^verbatim>\<open>DomContentLoaded\<close> without having recorded
  \<^verbatim>\<open>HttpRedirected\<close>.
\<close>

definition settled :: "Navigation \<Rightarrow> bool" where
  "settled h =
     ((has_status h (Status HttpResponded) \<or> has_status h (Status DomContentLoaded))
      \<and> \<not> has_status h (Status HttpRedirected))"

definition settledUrl :: "Navigation list \<Rightarrow> string option" where
  "settledUrl hs =
     (case filter settled hs of [] \<Rightarrow> None | x # xs \<Rightarrow> Some (finalUrl (last (x # xs))))"

text \<open>
  The specification's condition for a load wait: a milestone other than \<^verbatim>\<open>HttpRedirected\<close>
  whose pipeline rank is at least the rank of the target (\<open>outranks\<close>), present in the
  status map of the timeline's top entry (\<open>reaches\<close>); and what it means that a wait has
  resolved in a state (\<open>resolvedAfter\<close>).
\<close>

definition outranks :: "Pipeline \<Rightarrow> LoadStatus \<Rightarrow> NavigationStatus \<Rightarrow> bool" where
  "outranks pl target st =
     (st \<noteq> Status HttpRedirected
      \<and> (case pl (Status target) of
            None \<Rightarrow> False
          | Some r \<Rightarrow> (case pl st of None \<Rightarrow> False | Some k \<Rightarrow> r \<le> k)))"

definition reaches :: "Pipeline \<Rightarrow> LoadStatus \<Rightarrow> FrameNavigations \<Rightarrow> bool" where
  "reaches pl target navigations =
     (case top_nav navigations of
        None \<Rightarrow> False
      | Some t \<Rightarrow> list_ex (outranks pl target) (map fst (statusChanges t)))"

definition resolvedAfter :: "Error + WaitResult \<Rightarrow> Observer \<Rightarrow> bool" where
  "resolvedAfter result s =
     (case result of
        Inl e \<Rightarrow> False
      | Inr AlreadyResolved \<Rightarrow> True
      | Inr (Waiting k) \<Rightarrow> promises s (StatusRef k) = Fulfilled None)"

text \<open>The timeline reports that painting is stable.\<close>

definition reportsStable :: "FrameNavigations \<Rightarrow> bool" where
  "reportsStable navigations = isStable (getPaintStableStatus navigations)"

text \<open>Every armed settlement timer has a handle that \<^verbatim>\<open>setTimeout\<close> has already given out.\<close>

definition timersFresh :: "Observer \<Rightarrow> bool" where
  "timersFresh s = list_all (\<lambda>x. fst x < nextTimer s) (timers s)"

text \<open>The status trigger's deferred that the observer holds is one it has created.\<close>

definition tracksCreated :: "Observer \<Rightarrow> bool" where
  "tracksCreated s =
     (case statusTriggerResolvable s of None \<Rightarrow> True | Some k \<Rightarrow> k < length (created s))"

section \<open>Example data\<close>

definition cmd :: "int \<Rightarrow> string \<Rightarrow> ICommandMeta" where
  "cmd i n = \<lparr> id_cmd = i, name_cmd = n \<rparr>"

text \<open>A rank table in the order the specification gives for the milestones.\<close>

definition examplePipeline :: Pipeline where
  "examplePipeline st =
     (if st = Status HttpRedirected then Some 1
      else if st = Status HttpResponded then Some 2
      else if st = Status DomContentLoaded then Some 3
      else if st = Status AllContentLoaded then Some 4
      else if st = ContentPaint then Some 5
      else if st = Status PaintingStable then Some 6
      else None)"

definition notStable :: PaintStableStatus where
  "notStable = \<lparr> isStable = False, timeUntilReadyMs = None \<rparr>"

text \<open>The timeline before the first navigation.\<close>

definition noNavigation :: FrameNavigations where
  "noNavigation =
     \<lparr> top_nav = None, history = [], hasLoadStatus = (\<lambda>st. False),
       getPaintStableStatus = notStable \<rparr>"

definition noOptions :: IWaitForOptions where
  "noOptions = \<lparr> timeoutMs = None, sinceCommandId = None \<rparr>"

text \<open>
  Example entries and timelines: the top entry is the last of the history, and
  \<^verbatim>\<open>hasLoadStatus\<close> looks the status up in the top entry's map.
\<close>

definition entry :: "int \<Rightarrow> string \<Rightarrow> string \<Rightarrow> NavigationStatus list \<Rightarrow> Navigation" where
  "entry start url reason statuses =
     \<lparr> startCommandId = start, finalUrl = url, navigationReason = reason,
       statusChanges = map (\<lambda>st. (st, 0)) statuses, resourceId = 0, navigationError = None \<rparr>"

definition timeline :: "Navigation list \<Rightarrow> PaintStableStatus \<Rightarrow> FrameNavigations" where
  "timeline hist ps =
     \<lparr> top_nav = (if hist = [] then None else Some (last hist)),
       history = hist,
       hasLoadStatus = (\<lambda>st. hist \<noteq> [] \<and> has_status (last hist) (Status st)),
       getPaintStableStatus = ps \<rparr>"

text \<open>One navigation that has responded and is still loading.\<close>

definition responded :: FrameNavigations where
  "responded = timeline [entry 1 ''https://a/'' ''goto'' [Status HttpResponded]] notStable"

text \<open>
  An observer with a caller waiting for the navigation's resource id and a pending wait for
  \<^verbatim>\<open>DomContentLoaded\<close>.
\<close>

definition pendingLoad :: Observer where
  "pendingLoad =
     snd (waitForLoad examplePipeline responded (Load DomContentLoaded) noOptions
            (waitForNavigationResourceId responded newObserver))"

text \<open>
  One navigation whose content is loaded and whose painting is not stable yet; the timeline
  reports the time left until it counts as stable.
\<close>

definition loaded :: "int \<Rightarrow> FrameNavigations" where
  "loaded ms =
     timeline [entry 1 ''https://a/'' ''goto'' [Status HttpResponded, Status AllContentLoaded]]
       \<lparr> isStable = False, timeUntilReadyMs = Some ms \<rparr>"

text \<open>A settled page, then an in-page navigation to a second URL.\<close>

definition inPageTo :: "string \<Rightarrow> string \<Rightarrow> FrameNavigations" where
  "inPageTo url1 url2 =
     timeline [entry 1 url1 ''goto'' [Status HttpResponded, Status DomContentLoaded],
               entry 2 url2 ''inPage'' []] notStable"

text \<open>The same navigation later: content painted, painting reported stable.\<close>

definition painted :: FrameNavigations where
  "painted =
     timeline [entry 1 ''https://a/'' ''goto''
                 [Status HttpResponded, Status DomContentLoaded, ContentPaint]]
       \<lparr> isStable = True, timeUntilReadyMs = None \<rparr>"

text \<open>The same navigation with the DOM content loaded.\<close>

definition domLoaded :: FrameNavigations where
  "domLoaded =
     timeline [entry 1 ''https://a/'' ''goto'' [Status HttpResponded, Status DomContentLoaded]]
       notStable"

section \<open>Properties of willRunCommand\<close>

lemma willRunCommandLoop_last:
  "fst (willRunCommandLoop l c cmds) = (if cmds = [] then l else Some (last cmds))"
  by (induction cmds arbitrary: l c) (auto simp: Let_def)

lemma setsCursor_Cons:
  "setsCursor l (c # rest) =
     ((name_cmd c = ''goto''
       \<or> ((case l of None \<Rightarrow> False | Some x \<Rightarrow> startsWith (name_cmd x) ''waitFor'')
           \<and> \<not> startsWith (name_cmd c) ''waitFor''))
      \<or> setsCursor (Some c) rest)"
  by (cases l; cases rest) (auto simp: setsCursor_def adjacent_def)

lemma willRunCommandLoop_keeps:
  "\<not> setsCursor l cmds \<Longrightarrow> snd (willRunCommandLoop l c cmds) = c"
proof (induction cmds arbitrary: l c)
  case Nil
  then show ?case by simp
next
  case (Cons a cmds)
  then show ?case by (auto simp add: setsCursor_Cons Let_def)
qed

lemma willRunCommandLoop_sets:
  "setsCursor l cmds \<Longrightarrow>
     snd (willRunCommandLoop l c1 cmds) = snd (willRunCommandLoop l c2 cmds)"
proof (induction cmds arbitrary: l c1 c2)
  case Nil
  then show ?case by (simp add: setsCursor_def adjacent_def split: option.splits)
next
  case (Cons a cmds)
  then show ?case by (auto simp add: setsCursor_Cons Let_def)
qed

lemma willRunCommand_cursor_eq:
  "defaultWaitForLocationCommandId (willRunCommand n cmds s) =
     (if name_cmd n = ''waitForLocation'' \<and> cmds \<noteq> []
         \<and> startsWith (name_cmd (last cmds)) ''waitFor''
         \<and> name_cmd (last cmds) \<noteq> ''waitForMillis''
      then id_cmd n
      else snd (willRunCommandLoop None (defaultWaitForLocationCommandId s) cmds))"
proof -
  obtain l c where lc: "willRunCommandLoop None (defaultWaitForLocationCommandId s) cmds = (l, c)"
    by (cases "willRunCommandLoop None (defaultWaitForLocationCommandId s) cmds")
  have "l = (if cmds = [] then None else Some (last cmds))"
    using willRunCommandLoop_last [of None "defaultWaitForLocationCommandId s" cmds] lc by simp
  then show ?thesis
    by (simp add: willRunCommand_def lc)
qed

text \<open>
  C4, as the code has it. The cursor after \<^verbatim>\<open>willRunCommand\<close> depends on the cursor
  before it: when the command sequence anchors the cursor (a prior \<^verbatim>\<open>goto\<close>, a prior
  command that is not a \<^verbatim>\<open>waitFor\<close> directly after one that is, or a new
  \<^verbatim>\<open>waitForLocation\<close> directly after a \<^verbatim>\<open>waitFor\<close> other than \<^verbatim>\<open>waitForMillis\<close>), the
  result is the same from every prior state; otherwise the prior cursor is kept.
\<close>

theorem willRunCommand_cursor:
  "(anchorsCursor n cmds \<longrightarrow>
      defaultWaitForLocationCommandId (willRunCommand n cmds s1) =
      defaultWaitForLocationCommandId (willRunCommand n cmds s2))
   \<and> (\<not> anchorsCursor n cmds \<longrightarrow>
      defaultWaitForLocationCommandId (willRunCommand n cmds s) =
      defaultWaitForLocationCommandId s)"
proof (intro conjI impI)
  assume a: "anchorsCursor n cmds"
  show "defaultWaitForLocationCommandId (willRunCommand n cmds s1) =
        defaultWaitForLocationCommandId (willRunCommand n cmds s2)"
  proof (cases "setsCursor None cmds")
    case True
    then show ?thesis
      using willRunCommandLoop_sets [of None cmds "defaultWaitForLocationCommandId s1"
                          "defaultWaitForLocationCommandId s2"]
      by (simp add: willRunCommand_cursor_eq)
  next
    case False
    with a show ?thesis
      by (simp add: willRunCommand_cursor_eq anchorsCursor_def)
  qed
next
  assume a: "\<not> anchorsCursor n cmds"
  then have "\<not> setsCursor None cmds"
    by (simp add: anchorsCursor_def)
  then have "snd (willRunCommandLoop None (defaultWaitForLocationCommandId s) cmds) =
             defaultWaitForLocationCommandId s"
    by (rule willRunCommandLoop_keeps)
  with a show "defaultWaitForLocationCommandId (willRunCommand n cmds s) =
               defaultWaitForLocationCommandId s"
    by (auto simp add: willRunCommand_cursor_eq anchorsCursor_def)
qed

text \<open>
  Both cases on concrete command lists: a list with a \<^verbatim>\<open>goto\<close> gives the same cursor from
  two different prior cursors, a list of waits keeps the prior cursor 2.
\<close>

theorem willRunCommand_cursor_witness:
  "anchorsCursor (cmd 3 ''click'') [cmd 1 ''goto'', cmd 2 ''waitForLocation'']
   \<and> defaultWaitForLocationCommandId
       (willRunCommand (cmd 3 ''click'') [cmd 1 ''goto'', cmd 2 ''waitForLocation''] newObserver)
     = defaultWaitForLocationCommandId
       (willRunCommand (cmd 3 ''click'') [cmd 1 ''goto'', cmd 2 ''waitForLocation'']
          (newObserver\<lparr> defaultWaitForLocationCommandId := 7 \<rparr>))
   \<and> \<not> anchorsCursor (cmd 3 ''click'') [cmd 1 ''waitForElement'', cmd 2 ''waitForLocation'']
   \<and> defaultWaitForLocationCommandId
       (willRunCommand (cmd 3 ''click'') [cmd 1 ''waitForElement'', cmd 2 ''waitForLocation'']
          (newObserver\<lparr> defaultWaitForLocationCommandId := 2 \<rparr>)) = 2"
  using willRunCommand_cursor [of "cmd 3 ''click''" "[cmd 1 ''goto'', cmd 2 ''waitForLocation'']"
          newObserver "newObserver\<lparr> defaultWaitForLocationCommandId := 7 \<rparr>"]
        willRunCommand_cursor [of "cmd 3 ''click''"
          "[cmd 1 ''waitForElement'', cmd 2 ''waitForLocation'']" _ _
          "newObserver\<lparr> defaultWaitForLocationCommandId := 2 \<rparr>"]
  by (simp add: anchorsCursor_def setsCursor_def adjacent_def cmd_def startsWith_def
        newObserver_def)

text \<open>
  C4 as stated fails: with the same prior commands and the same new command, a fresh
  observer ends with cursor 0 and an observer that has seen the earlier
  \<^verbatim>\<open>waitForLocation\<close> run ends with cursor 2.
\<close>

theorem willRunCommand_pure_counterexample:
  "defaultWaitForLocationCommandId
     (willRunCommand (cmd 3 ''click'') [cmd 1 ''waitForElement'', cmd 2 ''waitForLocation'']
        newObserver)
   \<noteq> defaultWaitForLocationCommandId
     (willRunCommand (cmd 3 ''click'') [cmd 1 ''waitForElement'', cmd 2 ''waitForLocation'']
        (willRunCommand (cmd 2 ''waitForLocation'') [cmd 1 ''waitForElement''] newObserver))"
  by (simp add: willRunCommand_def cmd_def newObserver_def startsWith_def)

section \<open>Properties of waitForNavigationResourceId\<close>

text \<open>
  C10. Before the first navigation (no top entry) \<^verbatim>\<open>waitForNavigationResourceId\<close> tracks no
  deferred, does not wait and does not throw: the caller gets an undefined resource id.
\<close>

theorem waitForNavigationResourceId_no_top:
  "top_nav navigations = None \<Longrightarrow>
     waitForNavigationResourceId navigations s = s\<lparr> resourceIdResolvable := None \<rparr>
     \<and> awaitNavigationResourceId (top_nav navigations)
           (waitForNavigationResourceId navigations s) = Some (Inr None)"
  by (simp add: waitForNavigationResourceId_def awaitNavigationResourceId_def)

theorem waitForNavigationResourceId_no_top_witness:
  "top_nav noNavigation = None
   \<and> waitForNavigationResourceId noNavigation newObserver
       = newObserver\<lparr> resourceIdResolvable := None \<rparr>
   \<and> awaitNavigationResourceId (top_nav noNavigation)
         (waitForNavigationResourceId noNavigation newObserver) = Some (Inr None)"
proof -
  have h: "top_nav noNavigation = None"
    by (simp add: noNavigation_def)
  show ?thesis
    using h waitForNavigationResourceId_no_top [OF h, of newObserver]
    by (simp add: waitForNavigationResourceId_def)
qed

section \<open>Properties of waitForLoad\<close>

text \<open>
  C3 at \<^verbatim>\<open>sinceCommandId: 0\<close>: the option is supplied, and \<^verbatim>\<open>waitForLoad\<close> does not fail;
  it registers a pending trigger with the default timeout.
\<close>

theorem waitForLoad_sinceCommandId_zero:
  "(case waitForLoad examplePipeline noNavigation (Load DomContentLoaded)
           \<lparr> timeoutMs = None, sinceCommandId = Some (Integer 0) \<rparr> newObserver of
      (result, s) \<Rightarrow>
        result = Inr (Waiting 0)
        \<and> statusTriggerResolvable s = Some 0
        \<and> statusTrigger s = Some (Load DomContentLoaded)
        \<and> promises s (StatusRef 0) = Pending
        \<and> created s = [60000])"
  by (simp add: waitForLoad_def noNavigation_def newObserver_def
        createStatusTriggeredPromise_def createPromise_def Let_def)

text \<open>A truthy \<^verbatim>\<open>sinceCommandId\<close> makes \<^verbatim>\<open>waitForLoad\<close> throw and change nothing.\<close>

lemma waitForLoad_sinceCommandId_truthy:
  "truthy (sinceCommandId options) \<Longrightarrow>
     waitForLoad pl navigations (Load st) options s = (Inl NotImplemented, s)"
  by (simp add: waitForLoad_def)

section \<open>Effects on the store of deferreds\<close>

lemma cancelWaiting_promises:
  "promises (cancelWaiting m s) r =
     (if r \<in> set (tracked s) \<and> promises s r = Pending
      then Rejected (CanceledPromiseError m) else promises s r)"
  by (auto simp: cancelWaiting_def cancelPromise_def clearTimeout_def reject_def isResolved_def
        tracked_def Let_def split: option.splits)

lemma cancelWaiting_rejections:
  "rejections (cancelWaiting m s) =
     rejections s @ map (\<lambda>r. (r, CanceledPromiseError m))
                        (filter (\<lambda>r. promises s r = Pending) (tracked s))"
  by (auto simp: cancelWaiting_def cancelPromise_def clearTimeout_def reject_def isResolved_def
        tracked_def Let_def split: option.splits)

lemma cancelWaiting_fields:
  "resourceIdResolvable (cancelWaiting m s) = resourceIdResolvable s"
  "statusTriggerResolvable (cancelWaiting m s) = statusTriggerResolvable s"
  "statusTrigger (cancelWaiting m s) = statusTrigger s"
  "statusTriggerStartCommandId (cancelWaiting m s) = statusTriggerStartCommandId s"
  "waitingForLoadTimeout (cancelWaiting m s) = waitingForLoadTimeout s"
  "defaultWaitForLocationCommandId (cancelWaiting m s) = defaultWaitForLocationCommandId s"
  "created (cancelWaiting m s) = created s"
  "nextTimer (cancelWaiting m s) = nextTimer s"
  by (auto simp: cancelWaiting_def cancelPromise_def clearTimeout_def reject_def isResolved_def
        Let_def split: option.splits)

lemma cancelWaiting_timers:
  "timers (cancelWaiting m s) =
     (case waitingForLoadTimeout s of None \<Rightarrow> timers s
      | Some t \<Rightarrow> filter (\<lambda>x. fst x \<noteq> t) (timers s))"
  by (auto simp: cancelWaiting_def cancelPromise_def clearTimeout_def reject_def isResolved_def
        Let_def split: option.splits)

lemma cancelWaiting_twice:
  "cancelWaiting m' (cancelWaiting m s) = cancelWaiting m s"
proof -
  let ?s = "cancelWaiting m s"
  have t: "tracked ?s = tracked s"
    by (simp add: tracked_def cancelWaiting_fields)
  have p: "promises (cancelWaiting m' ?s) = promises ?s"
    by (rule ext) (simp add: cancelWaiting_promises t)
  have r: "rejections (cancelWaiting m' ?s) = rejections ?s"
    by (simp add: cancelWaiting_rejections [of m' ?s] t cancelWaiting_promises)
  have ti: "timers (cancelWaiting m' ?s) = timers ?s"
    by (cases "waitingForLoadTimeout s") (simp_all add: cancelWaiting_fields cancelWaiting_timers)
  show ?thesis
    by (rule Observer.equality) (simp_all add: p r ti cancelWaiting_fields)
qed


lemma resolvePendingStatus_promises:
  "promises (resolvePendingStatus s) r =
     (if statusTriggerResolvable s \<noteq> None \<and> r = StatusRef (the (statusTriggerResolvable s))
         \<and> promises s r = Pending
      then Fulfilled None else promises s r)"
  by (auto simp: resolvePendingStatus_def isResolved_def clearTimeout_def resolve_def Let_def
        split: option.splits)

lemma resolvePendingStatus_fields:
  "resourceIdResolvable (resolvePendingStatus s) = resourceIdResolvable s"
  "defaultWaitForLocationCommandId (resolvePendingStatus s) = defaultWaitForLocationCommandId s"
  "created (resolvePendingStatus s) = created s"
  "rejections (resolvePendingStatus s) = rejections s"
  "nextTimer (resolvePendingStatus s) = nextTimer s"
  "waitingForLoadTimeout (resolvePendingStatus s) = waitingForLoadTimeout s"
  by (auto simp: resolvePendingStatus_def isResolved_def clearTimeout_def resolve_def Let_def
        split: option.splits)

lemma waitForPageLoaded_promises:
  "promises (snd (waitForPageLoaded nav s)) r =
     (if isStable (getPaintStableStatus nav) then promises (resolvePendingStatus s) r
      else promises s r)"
  by (auto simp: waitForPageLoaded_def Let_def setTimeout_def clearTimeout_def
        resolvePendingStatus_promises split: option.splits prod.splits)

lemma waitForPageLoaded_fields:
  "resourceIdResolvable (snd (waitForPageLoaded nav s)) = resourceIdResolvable s"
  "defaultWaitForLocationCommandId (snd (waitForPageLoaded nav s)) = defaultWaitForLocationCommandId s"
  "created (snd (waitForPageLoaded nav s)) = created s"
  "rejections (snd (waitForPageLoaded nav s)) = rejections s"
  by (auto simp: waitForPageLoaded_def Let_def setTimeout_def clearTimeout_def
        resolvePendingStatus_fields split: option.splits prod.splits)

lemma onLoadStatusChange_promises:
  "promises (snd (onLoadStatusChange pl nav s)) r = promises s r
   \<or> (statusTriggerResolvable s \<noteq> None \<and> r = StatusRef (the (statusTriggerResolvable s))
       \<and> promises s r = Pending
       \<and> promises (snd (onLoadStatusChange pl nav s)) r = Fulfilled None)"
  by (auto simp: onLoadStatusChange_def waitForPageLoaded_promises resolvePendingStatus_promises
        split: option.splits LocationStatus.splits)

lemma onLoadStatusChange_fields:
  "resourceIdResolvable (snd (onLoadStatusChange pl nav s)) = resourceIdResolvable s"
  "defaultWaitForLocationCommandId (snd (onLoadStatusChange pl nav s)) = defaultWaitForLocationCommandId s"
  "created (snd (onLoadStatusChange pl nav s)) = created s"
  "rejections (snd (onLoadStatusChange pl nav s)) = rejections s"
  by (auto simp: onLoadStatusChange_def waitForPageLoaded_fields resolvePendingStatus_fields
        split: option.splits LocationStatus.splits)

lemma createStatusTriggeredPromise_fst:
  "fst (createStatusTriggeredPromise status t since s) = length (created s)"
  by (simp add: createStatusTriggeredPromise_def createPromise_def Let_def cancelWaiting_fields
        split: prod.splits)

lemma createStatusTriggeredPromise_fields:
  "statusTriggerResolvable (snd (createStatusTriggeredPromise status t since s)) = Some (length (created s))"
  "statusTrigger (snd (createStatusTriggeredPromise status t since s)) = Some status"
  "statusTriggerStartCommandId (snd (createStatusTriggeredPromise status t since s)) = since"
  "resourceIdResolvable (snd (createStatusTriggeredPromise status t since s)) = resourceIdResolvable s"
  "defaultWaitForLocationCommandId (snd (createStatusTriggeredPromise status t since s)) = defaultWaitForLocationCommandId s"
  "created (snd (createStatusTriggeredPromise status t since s)) = created s @ [case t of None \<Rightarrow> 60000 | Some x \<Rightarrow> x]"
  "waitingForLoadTimeout (snd (createStatusTriggeredPromise status t since s)) = waitingForLoadTimeout s"
  by (simp_all add: createStatusTriggeredPromise_def createPromise_def Let_def cancelWaiting_fields
        split: prod.splits)

lemma createStatusTriggeredPromise_promises:
  "promises (snd (createStatusTriggeredPromise status t since s)) r =
     (if r = StatusRef (length (created s)) then Pending
      else if statusTriggerResolvable s \<noteq> None \<and> r \<in> set (tracked s) \<and> promises s r = Pending
      then Rejected (CanceledPromiseError ''New location trigger created'')
      else promises s r)"
  by (simp add: createStatusTriggeredPromise_def createPromise_def Let_def cancelWaiting_fields
        cancelWaiting_promises split: prod.splits)

lemma createStatusTriggeredPromise_rejections:
  "rejections (snd (createStatusTriggeredPromise status t since s)) =
     (if statusTriggerResolvable s \<noteq> None then
        rejections s @ map (\<lambda>r. (r, CanceledPromiseError ''New location trigger created''))
                        (filter (\<lambda>r. promises s r = Pending) (tracked s))
      else rejections s)"
  by (simp add: createStatusTriggeredPromise_def createPromise_def Let_def cancelWaiting_fields
        cancelWaiting_rejections split: prod.splits)

section \<open>The wait methods, unfolded\<close>

lemma scopeAnchor_eq:
  "(case sinceCommandId options of Some (Integer i) \<Rightarrow> i
    | _ \<Rightarrow> defaultWaitForLocationCommandId s) = scopeAnchor options s"
  by (simp add: scopeAnchor_def split: option.splits JsNumber.splits)

lemma waitForLocation_Trigger:
  "waitForLocation nav (Trigger tr) opts s =
     (if hasLocationTrigger nav tr (scopeAnchor opts s) then (Inr AlreadyResolved, s)
      else (Inr (Waiting (length (created s))),
            snd (createStatusTriggeredPromise (Trigger tr) (timeoutMs opts)
                   (Some (scopeAnchor opts s)) s)))"
  using createStatusTriggeredPromise_fst [of "Trigger tr" "timeoutMs opts" "Some (scopeAnchor opts s)" s]
  by (simp add: waitForLocation_def scopeAnchor_eq split_beta)

lemma onLoadStatusChange_no_throw:
  "top_nav nav \<noteq> None \<Longrightarrow> fst (onLoadStatusChange pl nav s) = None"
  by (auto simp: onLoadStatusChange_def waitForPageLoaded_def Let_def split_beta
        split: option.splits LocationStatus.splits)

lemma waitForLoad_Load:
  "waitForLoad pl nav (Load st) opts s =
     (if truthy (sinceCommandId opts) then (Inl NotImplemented, s)
      else if hasLoadStatus nav st then (Inr AlreadyResolved, s)
      else (Inr (Waiting (length (created s))),
            (if top_nav nav = None
             then snd (createStatusTriggeredPromise (Load st) (timeoutMs opts) None s)
             else snd (onLoadStatusChange pl nav
                    (snd (createStatusTriggeredPromise (Load st) (timeoutMs opts) None s))))))"
  using createStatusTriggeredPromise_fst [of "Load st" "timeoutMs opts" None s]
  by (auto simp add: waitForLoad_def split_beta onLoadStatusChange_no_throw split: option.splits)

section \<open>The example states, evaluated\<close>

lemmas eval_defs =
  waitForLoad_def waitForLocation_def noOptions_def responded_def timeline_def
  entry_def has_status_def notStable_def waitForNavigationResourceId_def newObserver_def
  createStatusTriggeredPromise_def createPromise_def cancelWaiting_def cancelPromise_def
  clearTimeout_def reject_def resolve_def resolvePendingStatus_def
  onLoadStatusChange_def examplePipeline_def isResolved_def tracked_def Let_def split_beta
  hasLocationTrigger_def isNavigationReload_def

lemma pendingLoad_state:
  "statusTriggerResolvable pendingLoad = Some 0"
  "resourceIdResolvable pendingLoad = Some 0"
  "statusTrigger pendingLoad = Some (Load DomContentLoaded)"
  "created pendingLoad = [60000]"
  "rejections pendingLoad = []"
  "timers pendingLoad = []"
  "waitingForLoadTimeout pendingLoad = None"
  "defaultWaitForLocationCommandId pendingLoad = 0"
  "promises pendingLoad (StatusRef 0) = Pending"
  "promises pendingLoad (ResourceIdRef 0) = Pending"
  by (simp_all add: pendingLoad_def eval_defs)

section \<open>Supersession and cancellation\<close>

text \<open>
  C6. When \<^verbatim>\<open>waitForLocation\<close> or \<^verbatim>\<open>waitForLoad\<close> registers a new pending trigger while a
  prior trigger's deferred (one that the observer created) is still pending, the prior
  deferred is rejected with the cancellation error \<^verbatim>\<open>New location trigger created\<close>, not a
  timeout, and the call of \<^verbatim>\<open>reject\<close> is on record; the new deferred is another one and is
  not hit by the cancellation (it is pending, or already resolved by the re-evaluation that
  \<^verbatim>\<open>waitForLoad\<close> runs at once).
\<close>

theorem new_trigger_rejects_prior:
  assumes tracked_k: "statusTriggerResolvable s = Some k"
    and created_k: "k < length (created s)"
    and pending_k: "promises s (StatusRef k) = Pending"
  shows "(fst (waitForLocation nav st opts s) = Inr (Waiting k') \<longrightarrow>
            promises (snd (waitForLocation nav st opts s)) (StatusRef k)
              = Rejected (CanceledPromiseError ''New location trigger created'')
            \<and> (StatusRef k, CanceledPromiseError ''New location trigger created'')
                \<in> set (rejections (snd (waitForLocation nav st opts s)))
            \<and> k' \<noteq> k
            \<and> statusTriggerResolvable (snd (waitForLocation nav st opts s)) = Some k'
            \<and> promises (snd (waitForLocation nav st opts s)) (StatusRef k') = Pending)
       \<and> (fst (waitForLoad pl nav st opts s) = Inr (Waiting k') \<longrightarrow>
            promises (snd (waitForLoad pl nav st opts s)) (StatusRef k)
              = Rejected (CanceledPromiseError ''New location trigger created'')
            \<and> (StatusRef k, CanceledPromiseError ''New location trigger created'')
                \<in> set (rejections (snd (waitForLoad pl nav st opts s)))
            \<and> k' \<noteq> k
            \<and> (promises (snd (waitForLoad pl nav st opts s)) (StatusRef k') = Pending
                \<or> promises (snd (waitForLoad pl nav st opts s)) (StatusRef k') = Fulfilled None))"
proof -
  let ?msg = "CanceledPromiseError ''New location trigger created''"
  have in_tracked: "StatusRef k \<in> set (tracked s)"
    using tracked_k by (simp add: tracked_def)
  have created: "\<And>since. promises (snd (createStatusTriggeredPromise st (timeoutMs opts) since s))
                   (StatusRef k) = Rejected ?msg"
    using tracked_k created_k pending_k in_tracked
    by (simp add: createStatusTriggeredPromise_promises)
  have logged: "\<And>since. (StatusRef k, ?msg)
                  \<in> set (rejections (snd (createStatusTriggeredPromise st (timeoutMs opts) since s)))"
    using tracked_k pending_k in_tracked
    by (simp add: createStatusTriggeredPromise_rejections)
  have fresh: "\<And>since. promises (snd (createStatusTriggeredPromise st (timeoutMs opts) since s))
                   (StatusRef (length (created s))) = Pending"
    by (simp add: createStatusTriggeredPromise_promises)
  have location: "fst (waitForLocation nav st opts s) = Inr (Waiting k') \<longrightarrow>
            promises (snd (waitForLocation nav st opts s)) (StatusRef k) = Rejected ?msg
            \<and> (StatusRef k, ?msg) \<in> set (rejections (snd (waitForLocation nav st opts s)))
            \<and> k' \<noteq> k
            \<and> statusTriggerResolvable (snd (waitForLocation nav st opts s)) = Some k'
            \<and> promises (snd (waitForLocation nav st opts s)) (StatusRef k') = Pending"
  proof (cases st)
    case (Load x)
    then show ?thesis by (simp add: waitForLocation_def)
  next
    case (Trigger tr)
    then show ?thesis
      using created logged fresh created_k
      by (auto simp add: waitForLocation_Trigger createStatusTriggeredPromise_fields)
  qed
  have load: "fst (waitForLoad pl nav st opts s) = Inr (Waiting k') \<longrightarrow>
            promises (snd (waitForLoad pl nav st opts s)) (StatusRef k) = Rejected ?msg
            \<and> (StatusRef k, ?msg) \<in> set (rejections (snd (waitForLoad pl nav st opts s)))
            \<and> k' \<noteq> k
            \<and> (promises (snd (waitForLoad pl nav st opts s)) (StatusRef k') = Pending
                \<or> promises (snd (waitForLoad pl nav st opts s)) (StatusRef k') = Fulfilled None)"
  proof (cases st)
    case (Trigger tr)
    then show ?thesis by (simp add: waitForLoad_def)
  next
    case (Load x)
    let ?s1 = "snd (createStatusTriggeredPromise st (timeoutMs opts) None s)"
    have tr1: "statusTriggerResolvable ?s1 = Some (length (created s))"
      by (simp add: createStatusTriggeredPromise_fields)
    have old: "promises (snd (onLoadStatusChange pl nav ?s1)) (StatusRef k) = Rejected ?msg"
      using onLoadStatusChange_promises [of pl nav ?s1 "StatusRef k"] created [of None] created_k
      by (auto simp add: tr1)
    have new: "promises (snd (onLoadStatusChange pl nav ?s1)) (StatusRef (length (created s))) = Pending
               \<or> promises (snd (onLoadStatusChange pl nav ?s1)) (StatusRef (length (created s)))
                  = Fulfilled None"
      using onLoadStatusChange_promises [of pl nav ?s1 "StatusRef (length (created s))"] fresh [of None]
      by auto
    show ?thesis
      using created [of None] logged [of None] fresh [of None] created_k old new Load
      by (auto simp add: waitForLoad_Load onLoadStatusChange_fields)
  qed
  from location load show ?thesis by (rule conjI)
qed

theorem new_trigger_rejects_prior_witness:
  "statusTriggerResolvable pendingLoad = Some 0
   \<and> 0 < length (created pendingLoad)
   \<and> promises pendingLoad (StatusRef 0) = Pending
   \<and> fst (waitForLocation responded (Trigger reload) noOptions pendingLoad) = Inr (Waiting 1)
   \<and> promises (snd (waitForLocation responded (Trigger reload) noOptions pendingLoad)) (StatusRef 0)
       = Rejected (CanceledPromiseError ''New location trigger created'')
   \<and> promises (snd (waitForLocation responded (Trigger reload) noOptions pendingLoad)) (StatusRef 1)
       = Pending
   \<and> fst (waitForLoad examplePipeline responded (Load AllContentLoaded) noOptions pendingLoad)
       = Inr (Waiting 1)
   \<and> promises (snd (waitForLoad examplePipeline responded (Load AllContentLoaded) noOptions
                      pendingLoad)) (StatusRef 0)
       = Rejected (CanceledPromiseError ''New location trigger created'')"
proof -
  have h1: "statusTriggerResolvable pendingLoad = Some 0"
    and h2: "0 < length (created pendingLoad)"
    and h3: "promises pendingLoad (StatusRef 0) = Pending"
    by (simp_all add: pendingLoad_state)
  have r1: "fst (waitForLocation responded (Trigger reload) noOptions pendingLoad) = Inr (Waiting 1)"
    by (simp add: waitForLocation_Trigger scopeAnchor_def noOptions_def pendingLoad_state
          hasLocationTrigger_def responded_def timeline_def entry_def isNavigationReload_def)
  have r2: "fst (waitForLoad examplePipeline responded (Load AllContentLoaded) noOptions pendingLoad)
              = Inr (Waiting 1)"
    by (simp add: waitForLoad_Load noOptions_def pendingLoad_state
          responded_def timeline_def entry_def has_status_def)
  show ?thesis
    using h1 h2 h3 r1 r2
      new_trigger_rejects_prior [OF h1 h2 h3, of responded "Trigger reload" noOptions 1
        examplePipeline]
      new_trigger_rejects_prior [OF h1 h2 h3, of responded "Load AllContentLoaded" noOptions 1
        examplePipeline]
    by simp
qed

text \<open>
  C9. The supersession path runs the whole of \<^verbatim>\<open>cancelWaiting\<close>: when a wait method registers
  a new trigger while the observer holds a status trigger's deferred, a still-pending resource
  id deferred that \<^verbatim>\<open>waitForNavigationResourceId\<close> tracks is rejected with the same
  cancellation error, and the caller awaiting the resource id gets that error.
\<close>

theorem new_trigger_rejects_resource_wait:
  assumes has_trigger: "statusTriggerResolvable s \<noteq> None"
    and tracked_n: "resourceIdResolvable s = Some n"
    and pending_n: "promises s (ResourceIdRef n) = Pending"
  shows "(fst (waitForLocation nav st opts s) = Inr (Waiting k') \<longrightarrow>
            promises (snd (waitForLocation nav st opts s)) (ResourceIdRef n)
              = Rejected (CanceledPromiseError ''New location trigger created'')
            \<and> awaitNavigationResourceId (Some (t\<lparr> resourceId := n \<rparr>))
                  (snd (waitForLocation nav st opts s))
              = Some (Inl (CanceledPromiseError ''New location trigger created'')))
       \<and> (fst (waitForLoad pl nav st opts s) = Inr (Waiting k') \<longrightarrow>
            promises (snd (waitForLoad pl nav st opts s)) (ResourceIdRef n)
              = Rejected (CanceledPromiseError ''New location trigger created'')
            \<and> awaitNavigationResourceId (Some (t\<lparr> resourceId := n \<rparr>))
                  (snd (waitForLoad pl nav st opts s))
              = Some (Inl (CanceledPromiseError ''New location trigger created'')))"
proof -
  let ?msg = "CanceledPromiseError ''New location trigger created''"
  have in_tracked: "ResourceIdRef n \<in> set (tracked s)"
    using tracked_n by (simp add: tracked_def)
  have created: "\<And>since. promises (snd (createStatusTriggeredPromise st (timeoutMs opts) since s))
                   (ResourceIdRef n) = Rejected ?msg"
    using has_trigger pending_n in_tracked
    by (simp add: createStatusTriggeredPromise_promises)
  have await: "\<And>s'. promises s' (ResourceIdRef n) = Rejected ?msg \<Longrightarrow>
                 awaitNavigationResourceId (Some (t\<lparr> resourceId := n \<rparr>)) s' = Some (Inl ?msg)"
    by (simp add: awaitNavigationResourceId_def)
  have location: "fst (waitForLocation nav st opts s) = Inr (Waiting k') \<longrightarrow>
            promises (snd (waitForLocation nav st opts s)) (ResourceIdRef n) = Rejected ?msg"
  proof (cases st)
    case (Load x)
    then show ?thesis by (simp add: waitForLocation_def)
  next
    case (Trigger tr)
    then show ?thesis
      using created by (auto simp add: waitForLocation_Trigger)
  qed
  have load: "fst (waitForLoad pl nav st opts s) = Inr (Waiting k') \<longrightarrow>
            promises (snd (waitForLoad pl nav st opts s)) (ResourceIdRef n) = Rejected ?msg"
  proof (cases st)
    case (Trigger tr)
    then show ?thesis by (simp add: waitForLoad_def)
  next
    case (Load x)
    let ?s1 = "snd (createStatusTriggeredPromise st (timeoutMs opts) None s)"
    have "promises (snd (onLoadStatusChange pl nav ?s1)) (ResourceIdRef n) = Rejected ?msg"
      using onLoadStatusChange_promises [of pl nav ?s1 "ResourceIdRef n"] created [of None]
      by auto
    then show ?thesis
      using created [of None] Load
      by (auto simp add: waitForLoad_Load)
  qed
  from location load await show ?thesis by blast
qed

theorem new_trigger_rejects_resource_wait_witness:
  "statusTriggerResolvable pendingLoad \<noteq> None
   \<and> resourceIdResolvable pendingLoad = Some 0
   \<and> promises pendingLoad (ResourceIdRef 0) = Pending
   \<and> fst (waitForLocation responded (Trigger reload) noOptions pendingLoad) = Inr (Waiting 1)
   \<and> awaitNavigationResourceId (top_nav responded) pendingLoad = None
   \<and> awaitNavigationResourceId (top_nav responded)
        (snd (waitForLocation responded (Trigger reload) noOptions pendingLoad))
       = Some (Inl (CanceledPromiseError ''New location trigger created''))
   \<and> fst (waitForLoad examplePipeline responded (Load AllContentLoaded) noOptions pendingLoad)
       = Inr (Waiting 1)
   \<and> promises (snd (waitForLoad examplePipeline responded (Load AllContentLoaded) noOptions
                      pendingLoad)) (ResourceIdRef 0)
       = Rejected (CanceledPromiseError ''New location trigger created'')"
proof -
  have h1: "statusTriggerResolvable pendingLoad \<noteq> None"
    and h2: "resourceIdResolvable pendingLoad = Some 0"
    and h3: "promises pendingLoad (ResourceIdRef 0) = Pending"
    by (simp_all add: pendingLoad_state)
  have r1: "fst (waitForLocation responded (Trigger reload) noOptions pendingLoad) = Inr (Waiting 1)"
    by (simp add: waitForLocation_Trigger scopeAnchor_def noOptions_def pendingLoad_state
          hasLocationTrigger_def responded_def timeline_def entry_def isNavigationReload_def)
  have r2: "fst (waitForLoad examplePipeline responded (Load AllContentLoaded) noOptions pendingLoad)
              = Inr (Waiting 1)"
    by (simp add: waitForLoad_Load noOptions_def pendingLoad_state
          responded_def timeline_def entry_def has_status_def)
  have t: "top_nav responded
             = Some ((entry 1 ''https://a/'' ''goto'' [Status HttpResponded])\<lparr> resourceId := 0 \<rparr>)"
    by (simp add: responded_def timeline_def entry_def)
  have before: "awaitNavigationResourceId (top_nav responded) pendingLoad = None"
    by (simp add: t awaitNavigationResourceId_def pendingLoad_state)
  show ?thesis
    using h1 h2 h3 r1 r2 before
      new_trigger_rejects_resource_wait [OF h1 h2 h3, of responded "Trigger reload" noOptions 1
        "entry 1 ''https://a/'' ''goto'' [Status HttpResponded]" examplePipeline]
      new_trigger_rejects_resource_wait [OF h1 h2 h3, of responded "Load AllContentLoaded"
        noOptions 1 "entry 1 ''https://a/'' ''goto'' [Status HttpResponded]" examplePipeline]
    by (simp add: t)
qed

text \<open>
  C8. \<^verbatim>\<open>cancelWaiting\<close> rejects each tracked deferred that is still pending with the
  cancellation error carrying the reason, by one call of \<^verbatim>\<open>reject\<close> each (the two tracked
  deferreds are distinct); a deferred that is already settled keeps its state and gets no
  call; a second \<^verbatim>\<open>cancelWaiting\<close> changes nothing at all.
\<close>

theorem cancelWaiting_rejects_once:
  "promises (cancelWaiting m s) r =
     (if r \<in> set (tracked s) \<and> promises s r = Pending
      then Rejected (CanceledPromiseError m) else promises s r)
   \<and> rejections (cancelWaiting m s) =
       rejections s @ map (\<lambda>r. (r, CanceledPromiseError m))
                          (filter (\<lambda>r. promises s r = Pending) (tracked s))
   \<and> distinct (tracked s)
   \<and> cancelWaiting m' (cancelWaiting m s) = cancelWaiting m s"
  by (simp add: cancelWaiting_promises cancelWaiting_rejections cancelWaiting_twice tracked_def
        split: option.splits)

theorem cancelWaiting_rejects_once_witness:
  "promises (cancelWaiting ''stop'' pendingLoad) (StatusRef 0)
     = Rejected (CanceledPromiseError ''stop'')
   \<and> promises (cancelWaiting ''stop'' pendingLoad) (ResourceIdRef 0)
     = Rejected (CanceledPromiseError ''stop'')
   \<and> rejections (cancelWaiting ''stop'' pendingLoad)
     = [(ResourceIdRef 0, CanceledPromiseError ''stop''), (StatusRef 0, CanceledPromiseError ''stop'')]
   \<and> rejections (cancelWaiting ''again'' (cancelWaiting ''stop'' pendingLoad))
     = [(ResourceIdRef 0, CanceledPromiseError ''stop''), (StatusRef 0, CanceledPromiseError ''stop'')]"
  using cancelWaiting_rejects_once [of "''stop''" pendingLoad "StatusRef 0" "''again''"]
        cancelWaiting_rejects_once [of "''stop''" pendingLoad "ResourceIdRef 0" "''again''"]
  by (simp add: tracked_def pendingLoad_state)

section \<open>The settlement timer\<close>

lemma oneTimer_cases:
  "oneTimer s = (timers s = [] \<or> (\<exists>h d. timers s = [(h, d)] \<and> waitingForLoadTimeout s = Some h))"
  by (auto simp: oneTimer_def split: list.splits)

lemma oneTimer_no_timers: "timers s = [] \<Longrightarrow> oneTimer s"
  by (simp add: oneTimer_def)

lemma clearTimeout_clears:
  "oneTimer s \<Longrightarrow> timers (clearTimeout (waitingForLoadTimeout s) s) = []"
  by (auto simp: oneTimer_cases clearTimeout_def split: option.splits)

lemma clearTimeout_fields:
  "waitingForLoadTimeout (clearTimeout h s) = waitingForLoadTimeout s"
  "statusTriggerResolvable (clearTimeout h s) = statusTriggerResolvable s"
  "promises (clearTimeout h s) = promises s"
  by (simp_all add: clearTimeout_def split: option.splits)

lemma resolvePendingStatus_timers:
  "timers (resolvePendingStatus s) = timers s
   \<or> timers (resolvePendingStatus s) = timers (clearTimeout (waitingForLoadTimeout s) s)"
  by (auto simp: resolvePendingStatus_def resolve_def Let_def split: option.splits)

lemma oneTimer_resolvePendingStatus:
  "oneTimer s \<Longrightarrow> oneTimer (resolvePendingStatus s)"
  using resolvePendingStatus_timers [of s] clearTimeout_clears [of s]
  by (auto simp: oneTimer_cases resolvePendingStatus_fields)

lemma oneTimer_cancelWaiting:
  "oneTimer s \<Longrightarrow> oneTimer (cancelWaiting m s)"
  by (cases "waitingForLoadTimeout s")
     (auto simp: oneTimer_cases cancelWaiting_timers cancelWaiting_fields)

lemma createStatusTriggeredPromise_timers:
  "timers (snd (createStatusTriggeredPromise status t since s)) =
     (if statusTriggerResolvable s \<noteq> None
      then timers (cancelWaiting ''New location trigger created'' s) else timers s)"
  by (simp add: createStatusTriggeredPromise_def createPromise_def Let_def split_beta)

lemma oneTimer_createStatusTriggeredPromise:
  "oneTimer s \<Longrightarrow> oneTimer (snd (createStatusTriggeredPromise status t since s))"
  using oneTimer_cancelWaiting [of s "''New location trigger created''"]
  by (auto simp: oneTimer_cases createStatusTriggeredPromise_timers
        createStatusTriggeredPromise_fields cancelWaiting_fields)

lemma oneTimer_waitForPageLoaded:
  assumes "oneTimer s"
  shows "oneTimer (snd (waitForPageLoaded nav s))"
proof -
  let ?s1 = "clearTimeout (waitingForLoadTimeout s) s"
  have c: "timers ?s1 = []"
    using assms by (rule clearTimeout_clears)
  then have "oneTimer ?s1"
    by (rule oneTimer_no_timers)
  then have r: "timers (resolvePendingStatus ?s1) = []"
    using resolvePendingStatus_timers [of ?s1] c
    by (auto simp: clearTimeout_def split: option.splits)
  show ?thesis
    using c r
    by (auto simp: waitForPageLoaded_def Let_def setTimeout_def oneTimer_def
          split: option.splits)
qed

lemma oneTimer_onLoadStatusChange:
  "oneTimer s \<Longrightarrow> oneTimer (snd (onLoadStatusChange pl nav s))"
  by (auto simp: onLoadStatusChange_def oneTimer_resolvePendingStatus oneTimer_waitForPageLoaded
        split: option.splits LocationStatus.splits)

lemma oneTimer_waitForLocation:
  "oneTimer s \<Longrightarrow> oneTimer (snd (waitForLocation nav st opts s))"
proof (cases st)
  case (Load x)
  assume "oneTimer s"
  then show ?thesis using Load by (simp add: waitForLocation_def)
next
  case (Trigger tr)
  assume "oneTimer s"
  then show ?thesis
    using Trigger by (simp add: waitForLocation_Trigger oneTimer_createStatusTriggeredPromise)
qed

lemma oneTimer_waitForLoad:
  "oneTimer s \<Longrightarrow> oneTimer (snd (waitForLoad pl nav st opts s))"
proof (cases st)
  case (Trigger tr)
  assume "oneTimer s"
  then show ?thesis using Trigger by (simp add: waitForLoad_def)
next
  case (Load x)
  assume "oneTimer s"
  then show ?thesis
    using Load
    by (simp add: waitForLoad_Load oneTimer_createStatusTriggeredPromise
          oneTimer_onLoadStatusChange)
qed

lemma oneTimer_timerFires:
  "oneTimer s \<Longrightarrow> oneTimer (timerFires h s)"
proof -
  assume a: "oneTimer s"
  have "oneTimer (s\<lparr> timers := filter (\<lambda>x. fst x \<noteq> h) (timers s) \<rparr>)"
    using a by (cases "timers s") (auto simp: oneTimer_def split: list.splits)
  then show ?thesis
    using a by (simp add: timerFires_def oneTimer_resolvePendingStatus)
qed

lemma oneTimer_step:
  "oneTimer s \<Longrightarrow> oneTimer (step pl e s)"
proof (cases e)
  case (WillRunCommand c cs)
  assume "oneTimer s"
  then show ?thesis
    using WillRunCommand by (auto simp: willRunCommand_def oneTimer_cases split_beta)
next
  case (WaitForNavigationResourceId n)
  assume "oneTimer s"
  then show ?thesis
    using WaitForNavigationResourceId
    by (auto simp: waitForNavigationResourceId_def oneTimer_cases)
next
  case (PromiseTimesOut r)
  assume "oneTimer s"
  then show ?thesis
    using PromiseTimesOut by (auto simp: promiseTimesOut_def oneTimer_cases)
next
  case (ResourceIdSettles n outcome)
  assume "oneTimer s"
  then show ?thesis
    using ResourceIdSettles by (auto simp: resourceIdSettles_def oneTimer_cases)
qed (simp_all add: oneTimer_waitForLocation oneTimer_waitForLoad waitForReady_def
       oneTimer_cancelWaiting oneTimer_onLoadStatusChange oneTimer_timerFires)

lemma oneTimer_run:
  "oneTimer s \<Longrightarrow> oneTimer (run pl events s)"
  unfolding run_def
  by (induction events arbitrary: s) (simp_all add: oneTimer_step)

lemma timersFresh_iff:
  "timersFresh s = (\<forall>x \<in> set (timers s). fst x < nextTimer s)"
  by (simp add: timersFresh_def list_all_iff)

lemma timersFresh_clearTimeout:
  "timersFresh s \<Longrightarrow> timersFresh (clearTimeout h s)"
  by (auto simp: timersFresh_iff clearTimeout_def split: option.splits)

lemma timersFresh_resolvePendingStatus:
  "timersFresh s \<Longrightarrow> timersFresh (resolvePendingStatus s)"
  by (auto simp: timersFresh_iff resolvePendingStatus_def resolve_def clearTimeout_def Let_def
        split: option.splits)

lemma timersFresh_cancelWaiting:
  "timersFresh s \<Longrightarrow> timersFresh (cancelWaiting m s)"
  by (cases "waitingForLoadTimeout s")
     (auto simp: timersFresh_iff cancelWaiting_timers cancelWaiting_fields)

lemma createStatusTriggeredPromise_nextTimer:
  "nextTimer (snd (createStatusTriggeredPromise status t since s)) = nextTimer s"
  by (simp add: createStatusTriggeredPromise_def createPromise_def Let_def split_beta
        cancelWaiting_fields)

lemma timersFresh_createStatusTriggeredPromise:
  "timersFresh s \<Longrightarrow> timersFresh (snd (createStatusTriggeredPromise status t since s))"
  using timersFresh_cancelWaiting [of s "''New location trigger created''"]
  by (auto simp: timersFresh_iff createStatusTriggeredPromise_timers
        createStatusTriggeredPromise_nextTimer cancelWaiting_fields)

lemma timersFresh_waitForPageLoaded:
  assumes "timersFresh s"
  shows "timersFresh (snd (waitForPageLoaded nav s))"
proof -
  let ?s1 = "clearTimeout (waitingForLoadTimeout s) s"
  have a: "timersFresh ?s1"
    using assms by (rule timersFresh_clearTimeout)
  then have b: "timersFresh (resolvePendingStatus ?s1)"
    by (rule timersFresh_resolvePendingStatus)
  show ?thesis
    using a b
    by (auto simp: waitForPageLoaded_def Let_def setTimeout_def timersFresh_iff
          split: option.splits)
qed

lemma timersFresh_onLoadStatusChange:
  "timersFresh s \<Longrightarrow> timersFresh (snd (onLoadStatusChange pl nav s))"
  by (auto simp: onLoadStatusChange_def timersFresh_resolvePendingStatus
        timersFresh_waitForPageLoaded split: option.splits LocationStatus.splits)

lemma timersFresh_step:
  "timersFresh s \<Longrightarrow> timersFresh (step pl e s)"
proof (cases e)
  case (WillRunCommand c cs)
  assume "timersFresh s"
  then show ?thesis
    using WillRunCommand by (auto simp: willRunCommand_def timersFresh_iff split_beta)
next
  case (WaitForLocation n st opts)
  assume a: "timersFresh s"
  show ?thesis
  proof (cases st)
    case (Load x)
    then show ?thesis using a WaitForLocation by (simp add: waitForLocation_def)
  next
    case (Trigger tr)
    then show ?thesis
      using a WaitForLocation
      by (simp add: waitForLocation_Trigger timersFresh_createStatusTriggeredPromise)
  qed
next
  case (WaitForLoad n st opts)
  assume a: "timersFresh s"
  show ?thesis
  proof (cases st)
    case (Trigger tr)
    then show ?thesis using a WaitForLoad by (simp add: waitForLoad_def)
  next
    case (Load x)
    then show ?thesis
      using a WaitForLoad
      by (simp add: waitForLoad_Load timersFresh_createStatusTriggeredPromise
            timersFresh_onLoadStatusChange)
  qed
next
  case (WaitForReady n)
  assume a: "timersFresh s"
  then show ?thesis
    using WaitForReady
    by (simp add: waitForReady_def waitForLoad_Load timersFresh_createStatusTriggeredPromise
          timersFresh_onLoadStatusChange)
next
  case (WaitForNavigationResourceId n)
  assume "timersFresh s"
  then show ?thesis
    using WaitForNavigationResourceId
    by (auto simp: waitForNavigationResourceId_def timersFresh_iff)
next
  case (CancelWaiting m)
  assume "timersFresh s"
  then show ?thesis
    using CancelWaiting by (simp add: timersFresh_cancelWaiting)
next
  case (StatusChange n)
  assume "timersFresh s"
  then show ?thesis
    using StatusChange by (simp add: timersFresh_onLoadStatusChange)
next
  case (TimerFires h)
  assume a: "timersFresh s"
  then have "timersFresh (s\<lparr> timers := filter (\<lambda>x. fst x \<noteq> h) (timers s) \<rparr>)"
    by (auto simp: timersFresh_iff)
  then show ?thesis
    using a TimerFires by (simp add: timerFires_def timersFresh_resolvePendingStatus)
next
  case (PromiseTimesOut r)
  assume "timersFresh s"
  then show ?thesis
    using PromiseTimesOut by (auto simp: promiseTimesOut_def timersFresh_iff)
next
  case (ResourceIdSettles n outcome)
  assume "timersFresh s"
  then show ?thesis
    using ResourceIdSettles by (auto simp: resourceIdSettles_def timersFresh_iff)
qed

lemma timersFresh_run:
  "timersFresh s \<Longrightarrow> timersFresh (run pl events s)"
  unfolding run_def
  by (induction events arbitrary: s) (simp_all add: timersFresh_step)

text \<open>What the settlement path leaves armed, and what resolving a pending trigger leaves armed.\<close>

lemma waitForPageLoaded_timers:
  assumes "oneTimer s"
  shows "timers (snd (waitForPageLoaded nav s)) =
           (case timeUntilReadyMs (getPaintStableStatus nav) of
              None \<Rightarrow> []
            | Some d \<Rightarrow>
                if \<not> isStable (getPaintStableStatus nav) \<and> d \<noteq> 0 \<and> top_nav nav \<noteq> None
                then [(nextTimer s, d)] else [])"
proof -
  let ?s1 = "clearTimeout (waitingForLoadTimeout s) s"
  have c: "timers ?s1 = []"
    using assms by (rule clearTimeout_clears)
  then have "oneTimer ?s1"
    by (rule oneTimer_no_timers)
  then have r: "timers (resolvePendingStatus ?s1) = []"
    using resolvePendingStatus_timers [of ?s1] c
    by (auto simp: clearTimeout_def split: option.splits)
  have n: "nextTimer ?s1 = nextTimer s"
    by (simp add: clearTimeout_def split: option.splits)
  show ?thesis
    using c r n
    by (auto simp: waitForPageLoaded_def Let_def setTimeout_def resolvePendingStatus_fields
          split: option.splits)
qed

lemma resolvePendingStatus_clears:
  assumes "oneTimer s" and "statusTriggerResolvable s = Some k"
    and "promises s (StatusRef k) = Pending"
  shows "timers (resolvePendingStatus s) = []"
  using assms clearTimeout_clears [of s]
  by (simp add: resolvePendingStatus_def isResolved_def resolve_def Let_def)

text \<open>
  C7. Whatever has happened to an observer since it was created (calls of its methods,
  notifications, timers firing, deferreds timing out), at most one settlement timer is armed,
  it is the one the observer holds, and its handle is one already given out. Every run of the
  painting-stable settlement path from such a state clears that timer: after the run nothing
  is armed, or only the one timer that this run has armed, under a new handle, which happens
  exactly when painting is not stable, a non-zero time until ready is reported and there is a
  top entry. Resolving a pending trigger leaves no timer armed either.
\<close>

theorem one_settlement_timer:
  "oneTimer (run pl events newObserver)
   \<and> length (timers (run pl events newObserver)) \<le> 1
   \<and> length (timers (snd (waitForPageLoaded nav (run pl events newObserver)))) \<le> 1
   \<and> (\<forall>x \<in> set (timers (run pl events newObserver)).
         fst x < nextTimer (run pl events newObserver))
   \<and> timers (snd (waitForPageLoaded nav (run pl events newObserver))) =
       (case timeUntilReadyMs (getPaintStableStatus nav) of
          None \<Rightarrow> []
        | Some d \<Rightarrow>
            if \<not> isStable (getPaintStableStatus nav) \<and> d \<noteq> 0 \<and> top_nav nav \<noteq> None
            then [(nextTimer (run pl events newObserver), d)] else [])
   \<and> (statusTriggerResolvable (run pl events newObserver) = Some k
        \<and> promises (run pl events newObserver) (StatusRef k) = Pending \<longrightarrow>
        timers (resolvePendingStatus (run pl events newObserver)) = [])"
proof -
  let ?s = "run pl events newObserver"
  have "oneTimer newObserver"
    by (simp add: oneTimer_def newObserver_def)
  then have r: "oneTimer ?s"
    by (rule oneTimer_run)
  then have w: "oneTimer (snd (waitForPageLoaded nav ?s))"
    by (rule oneTimer_waitForPageLoaded)
  have "timersFresh newObserver"
    by (simp add: timersFresh_def newObserver_def)
  then have "timersFresh ?s"
    by (rule timersFresh_run)
  then have fresh: "\<forall>x \<in> set (timers ?s). fst x < nextTimer ?s"
    by (simp add: timersFresh_iff)
  have one: "length (timers ?s) \<le> 1"
    using r by (auto simp: oneTimer_cases)
  have one': "length (timers (snd (waitForPageLoaded nav ?s))) \<le> 1"
    using w by (auto simp: oneTimer_cases)
  have cleared: "statusTriggerResolvable ?s = Some k \<and> promises ?s (StatusRef k) = Pending \<longrightarrow>
                 timers (resolvePendingStatus ?s) = []"
    using resolvePendingStatus_clears [OF r, of k] by blast
  show ?thesis
    using r one one' fresh waitForPageLoaded_timers [OF r, of nav] cleared
    by (intro conjI) assumption+
qed

text \<open>
  A wait for stable painting arms timer 0; the next notification, with 300 ms left, leaves
  only the new timer 1 armed; a notification that reports no time left to wait leaves none.
\<close>

theorem one_settlement_timer_witness:
  "timers (run examplePipeline
            [WaitForLoad (loaded 500) (Load PaintingStable) noOptions] newObserver) = [(0, 500)]
   \<and> nextTimer (run examplePipeline
            [WaitForLoad (loaded 500) (Load PaintingStable) noOptions] newObserver) = 1
   \<and> timers (snd (waitForPageLoaded (loaded 300)
        (run examplePipeline
            [WaitForLoad (loaded 500) (Load PaintingStable) noOptions] newObserver))) = [(1, 300)]
   \<and> timers (snd (waitForPageLoaded responded
        (run examplePipeline
            [WaitForLoad (loaded 500) (Load PaintingStable) noOptions] newObserver))) = []
   \<and> timers (resolvePendingStatus
        (run examplePipeline
            [WaitForLoad (loaded 500) (Load PaintingStable) noOptions] newObserver)) = []
   \<and> timers (run examplePipeline
            [WaitForLoad (loaded 500) (Load PaintingStable) noOptions,
             StatusChange (loaded 300)] newObserver) = [(1, 300)]
   \<and> length (timers (run examplePipeline
            [WaitForLoad (loaded 500) (Load PaintingStable) noOptions,
             StatusChange (loaded 300)] newObserver)) \<le> 1"
proof -
  let ?s = "run examplePipeline [WaitForLoad (loaded 500) (Load PaintingStable) noOptions] newObserver"
  have st: "timers ?s = [(0, 500)]" "nextTimer ?s = 1"
    "statusTriggerResolvable ?s = Some 0" "promises ?s (StatusRef 0) = Pending"
    by (simp_all add: run_def eval_defs loaded_def waitForPageLoaded_def setTimeout_def)
  have two: "timers (run examplePipeline
               [WaitForLoad (loaded 500) (Load PaintingStable) noOptions,
                StatusChange (loaded 300)] newObserver) = [(1, 300)]"
    by (simp add: run_def eval_defs loaded_def waitForPageLoaded_def setTimeout_def)
  show ?thesis
    using st two
      one_settlement_timer [of examplePipeline
        "[WaitForLoad (loaded 500) (Load PaintingStable) noOptions]" "loaded 300" 0]
      one_settlement_timer [of examplePipeline
        "[WaitForLoad (loaded 500) (Load PaintingStable) noOptions]" responded 0]
    by (simp add: loaded_def responded_def timeline_def entry_def notStable_def)
qed

section \<open>The history scan\<close>

lemma settledUrl_Cons:
  "settledUrl (h # hs) =
     (case settledUrl hs of
        Some u \<Rightarrow> Some u
      | None \<Rightarrow> if settled h then Some (finalUrl h) else None)"
  by (auto simp: settledUrl_def split: list.splits)

lemma hasLocationTriggerLoop_append:
  "hasLocationTriggerLoop t since prev (pre @ rest) =
     (hasLocationTriggerLoop t since prev pre
      \<or> hasLocationTriggerLoop t since
           (case settledUrl pre of None \<Rightarrow> prev | Some u \<Rightarrow> Some u) rest)"
proof (induction pre arbitrary: prev)
  case Nil
  then show ?case by (simp add: settledUrl_def)
next
  case (Cons h pre)
  show ?case
    by (cases "settledUrl pre")
       (auto simp add: Cons.IH settledUrl_Cons Let_def settled_def simp del: hasLocationTriggerLoop.simps(2)
          simp add: hasLocationTriggerLoop.simps(2) [of t since prev h])
qed

lemma replace_first_gained:
  "p \<noteq> [] \<Longrightarrow> replace_first (p @ s) p = s"
  by (cases p) simp_all

lemma length_replace_first:
  "length (replace_first u p) = length u - (if sublist p u then length p else 0)"
proof (induction u)
  case Nil
  then show ?case by simp
next
  case (Cons c cs)
  show ?case
  proof (cases "prefix p (c # cs)")
    case True
    then have "sublist p (c # cs)"
      by (simp add: sublist_Cons_right)
    with True show ?thesis by simp
  next
    case False
    have "sublist p cs \<Longrightarrow> length p \<le> length cs"
      by (rule sublist_length_le)
    with False show ?thesis
      by (auto simp add: Cons.IH sublist_Cons_right)
  qed
qed

text \<open>
  C2, as the code has it. Take the entry \<open>h\<close> that ends the history, in scope of the
  trigger (\<^verbatim>\<open>startCommandId >= sinceCommandId\<close>), with no earlier entry satisfying the
  \<^verbatim>\<open>change\<close> trigger and with a previous settled URL \<open>p\<close> that is not empty and differs
  from the entry's final URL. Then: an entry whose reason is not \<^verbatim>\<open>inPage\<close> satisfies the
  trigger; an \<^verbatim>\<open>inPage\<close> entry satisfies it exactly when more than one character of its
  final URL is left after the first occurrence of \<open>p\<close> is deleted; so an \<^verbatim>\<open>inPage\<close> entry
  that gained one trailing character does not satisfy it, and one that lost a trailing
  character (and keeps at least two) does.
\<close>

theorem change_trigger_on_entry:
  assumes hist: "history nav = pre @ [h]"
    and earlier: "\<not> hasLocationTriggerLoop change since None pre"
    and prev: "settledUrl pre = Some p"
    and nonempty: "p \<noteq> []"
    and differs: "p \<noteq> finalUrl h"
    and scope: "since \<le> startCommandId h"
  shows "(navigationReason h \<noteq> ''inPage'' \<longrightarrow> hasLocationTrigger nav change since)
       \<and> (navigationReason h = ''inPage'' \<longrightarrow>
            hasLocationTrigger nav change since
              = (1 < length (finalUrl h) - (if sublist p (finalUrl h) then length p else 0)))
       \<and> (navigationReason h = ''inPage'' \<and> finalUrl h = p @ [c] \<longrightarrow>
            \<not> hasLocationTrigger nav change since)
       \<and> (navigationReason h = ''inPage'' \<and> p = finalUrl h @ [c] \<and> 1 < length (finalUrl h) \<longrightarrow>
            hasLocationTrigger nav change since)"
proof -
  have scan: "hasLocationTrigger nav change since
                = (\<not> (navigationReason h = ''inPage'' \<and> length (replace_first (finalUrl h) p) \<le> 1))"
    using earlier prev nonempty differs scope
    by (simp add: hasLocationTrigger_def hist hasLocationTriggerLoop_append Let_def)
  have len: "length (replace_first (finalUrl h) p)
               = length (finalUrl h) - (if sublist p (finalUrl h) then length p else 0)"
    by (rule length_replace_first)
  have gained: "finalUrl h = p @ [c] \<Longrightarrow> length (replace_first (finalUrl h) p) = 1"
    using nonempty by (simp add: replace_first_gained)
  have lost: "p = finalUrl h @ [c] \<Longrightarrow> \<not> sublist p (finalUrl h)"
    using sublist_length_le [of p "finalUrl h"] by auto
  show ?thesis
    using scan len gained lost by auto
qed

theorem change_trigger_on_entry_witness:
  "\<not> hasLocationTrigger (inPageTo ''https://a'' ''https://a/'') change 0
   \<and> hasLocationTrigger (inPageTo ''https://a'' ''https://a/#top'') change 0"
proof -
  let ?e1 = "entry 1 ''https://a'' ''goto'' [Status HttpResponded, Status DomContentLoaded]"
  have e: "\<not> hasLocationTriggerLoop change 0 None [?e1]"
    by (simp add: entry_def Let_def)
  have p: "settledUrl [?e1] = Some ''https://a''"
    by (simp add: settledUrl_def settled_def has_status_def entry_def)
  have h1: "history (inPageTo ''https://a'' ''https://a/'') = [?e1] @ [entry 2 ''https://a/'' ''inPage'' []]"
    by (simp add: inPageTo_def timeline_def)
  have h2: "history (inPageTo ''https://a'' ''https://a/#top'')
              = [?e1] @ [entry 2 ''https://a/#top'' ''inPage'' []]"
    by (simp add: inPageTo_def timeline_def)
  have n: "''https://a'' \<noteq> []" by simp
  have d1: "''https://a'' \<noteq> finalUrl (entry 2 ''https://a/'' ''inPage'' [])"
    by (simp add: entry_def)
  have d2: "''https://a'' \<noteq> finalUrl (entry 2 ''https://a/#top'' ''inPage'' [])"
    by (simp add: entry_def)
  have s1: "0 \<le> startCommandId (entry 2 ''https://a/'' ''inPage'' [])"
    by (simp add: entry_def)
  have s2: "0 \<le> startCommandId (entry 2 ''https://a/#top'' ''inPage'' [])"
    by (simp add: entry_def)
  have sub: "sublist ''https://a'' ''https://a/#top''"
    by (rule prefix_imp_sublist) simp
  show ?thesis
    using change_trigger_on_entry [OF h1 e p n d1 s1, of "CHR ''/''"]
          change_trigger_on_entry [OF h2 e p n d2 s2] sub
    by (simp add: entry_def)
qed

text \<open>
  C2 as stated fails for a lost trailing character: after \<^verbatim>\<open>https://a/\<close> has settled, an
  \<^verbatim>\<open>inPage\<close> navigation to \<^verbatim>\<open>https://a\<close> satisfies the \<^verbatim>\<open>change\<close> trigger.
\<close>

theorem change_trigger_lost_slash_counterexample:
  "navigationReason (entry 2 ''https://a'' ''inPage'' []) = ''inPage''
   \<and> settledUrl [entry 1 ''https://a/'' ''goto'' [Status HttpResponded, Status DomContentLoaded]]
       = Some (finalUrl (entry 2 ''https://a'' ''inPage'' []) @ ''/'')
   \<and> hasLocationTrigger (inPageTo ''https://a/'' ''https://a'') change 0"
  by (simp add: hasLocationTrigger_def inPageTo_def timeline_def entry_def has_status_def
        settledUrl_def settled_def Let_def)

section \<open>Properties of waitForLocation\<close>

text \<open>
  C5. \<^verbatim>\<open>waitForLocation\<close> scopes the trigger by \<^verbatim>\<open>options.sinceCommandId\<close> when that is an
  integer and by the default cursor otherwise. When the trigger already holds for that scope
  the call returns a resolved result and leaves the observer as it was: no deferred with its
  timeout is created and no trigger is registered. Otherwise the trigger it registers carries
  that same scope.
\<close>

theorem waitForLocation_already_satisfied:
  "(hasLocationTrigger nav tr (scopeAnchor opts s) \<longrightarrow>
      waitForLocation nav (Trigger tr) opts s = (Inr AlreadyResolved, s))
   \<and> (\<not> hasLocationTrigger nav tr (scopeAnchor opts s) \<longrightarrow>
      fst (waitForLocation nav (Trigger tr) opts s) = Inr (Waiting (length (created s)))
      \<and> statusTrigger (snd (waitForLocation nav (Trigger tr) opts s)) = Some (Trigger tr)
      \<and> statusTriggerStartCommandId (snd (waitForLocation nav (Trigger tr) opts s))
          = Some (scopeAnchor opts s))"
  by (simp add: waitForLocation_Trigger createStatusTriggeredPromise_fields)

theorem waitForLocation_already_satisfied_witness:
  "scopeAnchor \<lparr> timeoutMs = None, sinceCommandId = Some (Integer 2) \<rparr> pendingLoad = 2
   \<and> scopeAnchor \<lparr> timeoutMs = None, sinceCommandId = Some Fraction \<rparr> pendingLoad = 0
   \<and> waitForLocation (inPageTo ''https://a/'' ''https://a/page2'') (Trigger change)
        \<lparr> timeoutMs = None, sinceCommandId = Some (Integer 2) \<rparr> pendingLoad
       = (Inr AlreadyResolved, pendingLoad)
   \<and> fst (waitForLocation (inPageTo ''https://a/'' ''https://a/page2'') (Trigger change)
        \<lparr> timeoutMs = None, sinceCommandId = Some (Integer 3) \<rparr> pendingLoad)
       = Inr (Waiting 1)"
  using waitForLocation_already_satisfied [of "inPageTo ''https://a/'' ''https://a/page2''" change
          "\<lparr> timeoutMs = None, sinceCommandId = Some (Integer 2) \<rparr>" pendingLoad]
        waitForLocation_already_satisfied [of "inPageTo ''https://a/'' ''https://a/page2''" change
          "\<lparr> timeoutMs = None, sinceCommandId = Some (Integer 3) \<rparr>" pendingLoad]
  by (simp add: scopeAnchor_def pendingLoad_state hasLocationTrigger_def inPageTo_def
        timeline_def entry_def has_status_def Let_def)

section \<open>Load waits and notifications\<close>

lemma scanStatusChanges_found:
  "pl (Status target) = Some r \<Longrightarrow>
     (scanStatusChanges pl r keys \<noteq> None) = list_ex (outranks pl target) keys"
  by (induction keys) (auto simp: outranks_def Let_def split: option.splits)

lemma onLoadStatusChange_pending:
  assumes "target \<noteq> PaintingStable" and "pl (Status target) \<noteq> Some 0"
    and "statusTrigger s = Some (Load target)"
    and "statusTriggerResolvable s = Some k"
    and "promises s (StatusRef k) = Pending"
  shows "snd (onLoadStatusChange pl nav s) =
           (if reaches pl target nav then resolvePendingStatus s else s)"
proof (cases "pl (Status target)")
  case None
  then show ?thesis
    using assms by (simp add: onLoadStatusChange_def reaches_def outranks_def list_ex_iff
        split: option.splits)
next
  case (Some r)
  show ?thesis
  proof (cases "top_nav nav")
    case None
    then show ?thesis
      using assms Some by (simp add: onLoadStatusChange_def reaches_def isResolved_def)
  next
    case (Some t)
    then show ?thesis
      using assms \<open>pl (Status target) = Some r\<close>
        scanStatusChanges_found [of pl target r "map fst (statusChanges t)"]
      by (auto simp add: onLoadStatusChange_def reaches_def isResolved_def split: option.splits)
  qed
qed

lemma resolvePendingStatus_pending:
  assumes "statusTriggerResolvable s = Some k" and "promises s (StatusRef k) = Pending"
  shows "statusTrigger (resolvePendingStatus s) = None"
    and "promises (resolvePendingStatus s) (StatusRef k) = Fulfilled None"
  using assms
  by (simp_all add: resolvePendingStatus_def isResolved_def resolve_def clearTimeout_def Let_def
        split: option.splits)

lemma onLoadStatusChange_idle:
  "statusTrigger s = None \<Longrightarrow> onLoadStatusChange pl nav s = (None, s)"
  by (simp add: onLoadStatusChange_def)

lemma run_notifications_idle:
  "statusTrigger s = None \<Longrightarrow> run pl (map StatusChange navs) s = s"
  by (induction navs) (simp_all add: run_def onLoadStatusChange_idle)

lemma run_Cons: "run pl (e # es) s = run pl es (step pl e s)"
  by (simp add: run_def)

lemma run_notifications_pending:
  assumes "target \<noteq> PaintingStable" and "pl (Status target) \<noteq> Some 0"
  shows "statusTrigger s = Some (Load target) \<Longrightarrow> statusTriggerResolvable s = Some k \<Longrightarrow>
         promises s (StatusRef k) = Pending \<Longrightarrow>
         (promises (run pl (map StatusChange navs) s) (StatusRef k) = Fulfilled None)
           = list_ex (reaches pl target) navs"
proof (induction navs arbitrary: s)
  case Nil
  then show ?case by (simp add: run_def)
next
  case (Cons n navs)
  have st: "step pl (StatusChange n) s = (if reaches pl target n then resolvePendingStatus s else s)"
    using onLoadStatusChange_pending [where pl = pl and target = target, OF assms Cons.prems] by simp
  show ?case
  proof (cases "reaches pl target n")
    case True
    then show ?thesis
      using st resolvePendingStatus_pending [OF Cons.prems(2,3)]
      by (simp add: run_Cons run_notifications_idle)
  next
    case False
    then show ?thesis
      using st Cons.IH [OF Cons.prems] by (simp add: run_Cons)
  qed
qed

text \<open>The rank scan decides every wait other than the one for stable painting.\<close>

lemma waitForLoad_resolves_by_rank:
  assumes not_painting: "target \<noteq> PaintingStable"
    and rank: "pl (Status target) \<noteq> Some 0"
    and unscoped: "\<not> truthy (sinceCommandId opts)"
  shows "resolvedAfter (fst (waitForLoad pl nav0 (Load target) opts s))
           (run pl (map StatusChange navs) (snd (waitForLoad pl nav0 (Load target) opts s)))
         = (hasLoadStatus nav0 target \<or> list_ex (reaches pl target) (nav0 # navs))"
proof (cases "hasLoadStatus nav0 target")
  case True
  then show ?thesis
    using unscoped by (simp add: waitForLoad_Load resolvedAfter_def)
next
  case False
  let ?k = "length (created s)"
  let ?s1 = "snd (createStatusTriggeredPromise (Load target) (timeoutMs opts) None s)"
  have p1: "statusTrigger ?s1 = Some (Load target)"
    and p2: "statusTriggerResolvable ?s1 = Some ?k"
    and p3: "promises ?s1 (StatusRef ?k) = Pending"
    by (simp_all add: createStatusTriggeredPromise_fields createStatusTriggeredPromise_promises)
  show ?thesis
  proof (cases "top_nav nav0")
    case None
    then have "\<not> reaches pl target nav0"
      by (simp add: reaches_def)
    then show ?thesis
      using False unscoped None run_notifications_pending [where pl = pl and target = target, OF not_painting rank p1 p2 p3, of navs]
      by (simp add: waitForLoad_Load resolvedAfter_def)
  next
    case (Some t)
    have st: "snd (onLoadStatusChange pl nav0 ?s1)
                = (if reaches pl target nav0 then resolvePendingStatus ?s1 else ?s1)"
      by (rule onLoadStatusChange_pending [where pl = pl and target = target, OF not_painting rank p1 p2 p3])
    show ?thesis
    proof (cases "reaches pl target nav0")
      case True
      then show ?thesis
        using False unscoped Some st resolvePendingStatus_pending [OF p2 p3]
        by (simp add: waitForLoad_Load resolvedAfter_def run_notifications_idle)
    next
      case no: False
      then show ?thesis
        using False unscoped Some st
          run_notifications_pending [where pl = pl and target = target, OF not_painting rank p1 p2 p3, of navs]
        by (simp add: waitForLoad_Load resolvedAfter_def)
    qed
  qed
qed

lemma run_append: "run pl (xs @ ys) s = run pl ys (run pl xs s)"
  by (simp add: run_def)

lemma onLoadStatusChange_painting:
  assumes "pl (Status PaintingStable) = Some r" and "r \<noteq> 0"
    and "statusTrigger s = Some (Load PaintingStable)"
    and "statusTriggerResolvable s = Some k"
    and "promises s (StatusRef k) = Pending"
  shows "snd (onLoadStatusChange pl nav s) = snd (waitForPageLoaded nav s)"
  using assms by (simp add: onLoadStatusChange_def isResolved_def)

lemma clearTimeout_trigger:
  "statusTrigger (clearTimeout h s) = statusTrigger s"
  by (simp add: clearTimeout_def split: option.splits)

lemma waitForPageLoaded_stable:
  assumes "statusTriggerResolvable s = Some k" and "promises s (StatusRef k) = Pending"
    and "reportsStable nav"
  shows "statusTrigger (snd (waitForPageLoaded nav s)) = None"
    and "promises (snd (waitForPageLoaded nav s)) (StatusRef k) = Fulfilled None"
proof -
  let ?s1 = "clearTimeout (waitingForLoadTimeout s) s"
  have a: "statusTriggerResolvable ?s1 = Some k" and b: "promises ?s1 (StatusRef k) = Pending"
    using assms by (simp_all add: clearTimeout_fields)
  have "snd (waitForPageLoaded nav s) = resolvePendingStatus ?s1"
    using assms(3) by (simp add: waitForPageLoaded_def reportsStable_def Let_def split: option.splits)
  then show "statusTrigger (snd (waitForPageLoaded nav s)) = None"
    and "promises (snd (waitForPageLoaded nav s)) (StatusRef k) = Fulfilled None"
    using resolvePendingStatus_pending [OF a b] by simp_all
qed

lemma waitForPageLoaded_not_stable:
  assumes "\<not> reportsStable nav"
  shows "statusTrigger (snd (waitForPageLoaded nav s)) = statusTrigger s"
    and "statusTriggerResolvable (snd (waitForPageLoaded nav s)) = statusTriggerResolvable s"
    and "promises (snd (waitForPageLoaded nav s)) = promises s"
  using assms
  by (auto simp: waitForPageLoaded_def reportsStable_def Let_def setTimeout_def clearTimeout_def
        split: option.splits)

lemma waitForPageLoaded_arms:
  assumes "\<not> reportsStable nav" and "top_nav nav \<noteq> None"
    and "timeUntilReadyMs (getPaintStableStatus nav) = Some d" and "d \<noteq> 0"
  shows "(nextTimer s, d) \<in> set (timers (snd (waitForPageLoaded nav s)))"
  using assms
  by (auto simp: waitForPageLoaded_def reportsStable_def Let_def setTimeout_def clearTimeout_def
        split: option.splits)

lemma run_notifications_painting:
  assumes "pl (Status PaintingStable) = Some r" and "r \<noteq> 0"
  shows "statusTrigger s = Some (Load PaintingStable) \<Longrightarrow> statusTriggerResolvable s = Some k \<Longrightarrow>
         promises s (StatusRef k) = Pending \<Longrightarrow>
         (if list_ex reportsStable navs
          then statusTrigger (run pl (map StatusChange navs) s) = None
               \<and> promises (run pl (map StatusChange navs) s) (StatusRef k) = Fulfilled None
          else statusTrigger (run pl (map StatusChange navs) s) = Some (Load PaintingStable)
               \<and> statusTriggerResolvable (run pl (map StatusChange navs) s) = Some k
               \<and> promises (run pl (map StatusChange navs) s) (StatusRef k) = Pending)"
proof (induction navs arbitrary: s)
  case Nil
  then show ?case by (simp add: run_def)
next
  case (Cons n navs)
  have st: "step pl (StatusChange n) s = snd (waitForPageLoaded n s)"
    using onLoadStatusChange_painting [where pl = pl, OF assms Cons.prems] by simp
  show ?case
  proof (cases "reportsStable n")
    case True
    then show ?thesis
      using st waitForPageLoaded_stable [OF Cons.prems(2,3) True]
      by (simp add: run_Cons run_notifications_idle)
  next
    case False
    have "statusTrigger (snd (waitForPageLoaded n s)) = Some (Load PaintingStable)"
      and "statusTriggerResolvable (snd (waitForPageLoaded n s)) = Some k"
      and "promises (snd (waitForPageLoaded n s)) (StatusRef k) = Pending"
      using waitForPageLoaded_not_stable [OF False, of s] Cons.prems by simp_all
    from Cons.IH [OF this] show ?thesis
      using False st by (simp add: run_Cons)
  qed
qed

lemma timerFires_resolves:
  assumes "statusTriggerResolvable s = Some k" and "promises s (StatusRef k) = Pending"
    and "h \<in> set (map fst (timers s))"
  shows "promises (timerFires h s) (StatusRef k) = Fulfilled None"
proof -
  let ?s1 = "s\<lparr> timers := filter (\<lambda>x. fst x \<noteq> h) (timers s) \<rparr>"
  have a: "statusTriggerResolvable ?s1 = Some k" and b: "promises ?s1 (StatusRef k) = Pending"
    using assms by simp_all
  show ?thesis
    using assms(3) resolvePendingStatus_pending(2) [OF a b] by (simp add: timerFires_def)
qed

lemma timerFires_keeps_resolved:
  "promises s (StatusRef k) = Fulfilled None \<Longrightarrow>
     promises (timerFires h s) (StatusRef k) = Fulfilled None"
  by (simp add: timerFires_def resolvePendingStatus_promises)

text \<open>A pending wait for stable painting: the next notification and the timer it arms.\<close>

lemma painting_timer_resolves:
  assumes r: "pl (Status PaintingStable) = Some r" "r \<noteq> 0"
    and p: "statusTrigger s = Some (Load PaintingStable)" "statusTriggerResolvable s = Some k"
      "promises s (StatusRef k) = Pending"
    and n: "\<not> reportsStable n" "top_nav n \<noteq> None"
      "timeUntilReadyMs (getPaintStableStatus n) = Some d" "d \<noteq> 0"
  shows "promises (run pl [StatusChange n, TimerFires (nextTimer s)] s) (StatusRef k) = Fulfilled None"
proof -
  let ?s1 = "snd (waitForPageLoaded n s)"
  have st: "step pl (StatusChange n) s = ?s1"
    using onLoadStatusChange_painting [where pl = pl, OF r p] by simp
  have a: "statusTriggerResolvable ?s1 = Some k" and b: "promises ?s1 (StatusRef k) = Pending"
    using waitForPageLoaded_not_stable [OF n(1), of s] p by simp_all
  have c: "nextTimer s \<in> set (map fst (timers ?s1))"
    using waitForPageLoaded_arms [OF n, of s] by force
  show ?thesis
    using st timerFires_resolves [OF a b c] by (simp add: run_def)
qed

lemma painting_timer_after_resolved:
  assumes "statusTrigger s = None" and "promises s (StatusRef k) = Fulfilled None"
  shows "promises (run pl [StatusChange n, TimerFires h] s) (StatusRef k) = Fulfilled None"
  using assms by (simp add: run_def onLoadStatusChange_idle timerFires_keeps_resolved)


lemma painting_from_pending:
  assumes r: "pl (Status PaintingStable) = Some r" "r \<noteq> 0"
    and p: "statusTrigger s = Some (Load PaintingStable)" "statusTriggerResolvable s = Some k"
      "promises s (StatusRef k) = Pending"
  shows "(promises (run pl (map StatusChange navs) s) (StatusRef k) = Fulfilled None)
           = list_ex reportsStable navs"
    and "\<not> reportsStable n \<Longrightarrow> top_nav n \<noteq> None \<Longrightarrow>
         timeUntilReadyMs (getPaintStableStatus n) = Some d \<Longrightarrow> d \<noteq> 0 \<Longrightarrow>
         promises (run pl (map StatusChange navs
                            @ [StatusChange n,
                               TimerFires (nextTimer (run pl (map StatusChange navs) s))]) s)
           (StatusRef k) = Fulfilled None"
    and "\<not> reportsStable n \<Longrightarrow> top_nav n \<noteq> None \<Longrightarrow>
         timeUntilReadyMs (getPaintStableStatus n) = Some d \<Longrightarrow> d \<noteq> 0 \<Longrightarrow>
         \<not> list_ex reportsStable navs \<Longrightarrow>
         (nextTimer (run pl (map StatusChange navs) s), d)
           \<in> set (timers (run pl (map StatusChange navs @ [StatusChange n]) s))"
proof -
  note inv = run_notifications_painting [where pl = pl, OF r p, of navs]
  show "\<not> reportsStable n \<Longrightarrow> top_nav n \<noteq> None \<Longrightarrow>
         timeUntilReadyMs (getPaintStableStatus n) = Some d \<Longrightarrow> d \<noteq> 0 \<Longrightarrow>
         \<not> list_ex reportsStable navs \<Longrightarrow>
         (nextTimer (run pl (map StatusChange navs) s), d)
           \<in> set (timers (run pl (map StatusChange navs @ [StatusChange n]) s))"
  proof -
    assume n: "\<not> reportsStable n" "top_nav n \<noteq> None"
      "timeUntilReadyMs (getPaintStableStatus n) = Some d" "d \<noteq> 0"
      and no: "\<not> list_ex reportsStable navs"
    let ?s' = "run pl (map StatusChange navs) s"
    have q: "statusTrigger ?s' = Some (Load PaintingStable)"
      "statusTriggerResolvable ?s' = Some k" "promises ?s' (StatusRef k) = Pending"
      using inv no by simp_all
    have "step pl (StatusChange n) ?s' = snd (waitForPageLoaded n ?s')"
      using onLoadStatusChange_painting [where pl = pl, OF r q] by simp
    then show ?thesis
      using waitForPageLoaded_arms [OF n, of ?s'] by (simp add: run_append run_def)
  qed
  show "(promises (run pl (map StatusChange navs) s) (StatusRef k) = Fulfilled None)
           = list_ex reportsStable navs"
    using inv by (cases "list_ex reportsStable navs") simp_all
  assume n: "\<not> reportsStable n" "top_nav n \<noteq> None"
    "timeUntilReadyMs (getPaintStableStatus n) = Some d" "d \<noteq> 0"
  show "promises (run pl (map StatusChange navs
                            @ [StatusChange n,
                               TimerFires (nextTimer (run pl (map StatusChange navs) s))]) s)
           (StatusRef k) = Fulfilled None"
  proof (cases "list_ex reportsStable navs")
    case True
    then show ?thesis
      using inv painting_timer_after_resolved [of "run pl (map StatusChange navs) s" k pl n]
      by (simp add: run_append)
  next
    case False
    then have q: "statusTrigger (run pl (map StatusChange navs) s) = Some (Load PaintingStable)"
      "statusTriggerResolvable (run pl (map StatusChange navs) s) = Some k"
      "promises (run pl (map StatusChange navs) s) (StatusRef k) = Pending"
      using inv by simp_all
    show ?thesis
      using painting_timer_resolves [where pl = pl, OF r q n] by (simp add: run_append)
  qed
qed

lemma painting_from_resolved:
  assumes "statusTrigger s = None" and "promises s (StatusRef k) = Fulfilled None"
  shows "promises (run pl (map StatusChange navs) s) (StatusRef k) = Fulfilled None"
    and "promises (run pl (map StatusChange navs @ [StatusChange n, TimerFires h]) s)
           (StatusRef k) = Fulfilled None"
  using assms painting_timer_after_resolved [OF assms, of pl n h]
  by (simp_all add: run_append run_notifications_idle)

text \<open>
  C1, as the code has it. Take a load status whose pipeline rank is not 0, and a
  \<^verbatim>\<open>waitForLoad\<close> call without a truthy \<^verbatim>\<open>sinceCommandId\<close>, followed by status-change
  notifications only. For a status other than \<^verbatim>\<open>PaintingStable\<close> the wait has resolved after
  them exactly when \<^verbatim>\<open>hasLoadStatus\<close> held at the call, or the status map of the top entry,
  at the call or at one of the notifications, holds a milestone other than
  \<^verbatim>\<open>HttpRedirected\<close> whose rank is at least the rank of the awaited status. For
  \<^verbatim>\<open>PaintingStable\<close>, when it has a rank, the wait has resolved exactly when
  \<^verbatim>\<open>hasLoadStatus\<close> held at the call, or the timeline reported stable painting at the call
  (with a top entry) or at one of the notifications; and one more notification that reports
  painting not stable, with a top entry and a non-zero time until ready, arms a settlement
  timer under the next handle unless the wait has resolved before, and the wait has resolved
  once the timer with that handle has fired.
\<close>

theorem waitForLoad_resolves_iff:
  assumes rank: "pl (Status target) \<noteq> Some 0"
    and unscoped: "\<not> truthy (sinceCommandId opts)"
  shows "(target \<noteq> PaintingStable \<longrightarrow>
            resolvedAfter (fst (waitForLoad pl nav0 (Load target) opts s))
              (run pl (map StatusChange navs) (snd (waitForLoad pl nav0 (Load target) opts s)))
            = (hasLoadStatus nav0 target \<or> list_ex (reaches pl target) (nav0 # navs)))
       \<and> (target = PaintingStable \<and> pl (Status target) \<noteq> None \<longrightarrow>
            resolvedAfter (fst (waitForLoad pl nav0 (Load target) opts s))
              (run pl (map StatusChange navs) (snd (waitForLoad pl nav0 (Load target) opts s)))
            = (hasLoadStatus nav0 target
               \<or> (top_nav nav0 \<noteq> None \<and> reportsStable nav0)
               \<or> list_ex reportsStable navs)
            \<and> (\<not> reportsStable n \<and> top_nav n \<noteq> None
                \<and> timeUntilReadyMs (getPaintStableStatus n) = Some d \<and> d \<noteq> 0 \<longrightarrow>
                resolvedAfter (fst (waitForLoad pl nav0 (Load target) opts s))
                  (run pl (map StatusChange navs
                           @ [StatusChange n,
                              TimerFires (nextTimer (run pl (map StatusChange navs)
                                 (snd (waitForLoad pl nav0 (Load target) opts s))))])
                     (snd (waitForLoad pl nav0 (Load target) opts s)))
                \<and> (resolvedAfter (fst (waitForLoad pl nav0 (Load target) opts s))
                      (run pl (map StatusChange navs)
                         (snd (waitForLoad pl nav0 (Load target) opts s)))
                    \<or> (nextTimer (run pl (map StatusChange navs)
                                     (snd (waitForLoad pl nav0 (Load target) opts s))), d)
                       \<in> set (timers (run pl (map StatusChange navs @ [StatusChange n])
                                         (snd (waitForLoad pl nav0 (Load target) opts s)))))))"
proof (intro conjI impI)
  assume "target \<noteq> PaintingStable"
  then show "resolvedAfter (fst (waitForLoad pl nav0 (Load target) opts s))
              (run pl (map StatusChange navs) (snd (waitForLoad pl nav0 (Load target) opts s)))
            = (hasLoadStatus nav0 target \<or> list_ex (reaches pl target) (nav0 # navs))"
    using rank unscoped by (rule waitForLoad_resolves_by_rank [where pl = pl])
next
  assume t: "target = PaintingStable \<and> pl (Status target) \<noteq> None"
  then obtain r where r: "pl (Status PaintingStable) = Some r" "r \<noteq> 0"
    using rank by auto
  let ?W = "waitForLoad pl nav0 (Load PaintingStable) opts s"
  let ?k = "length (created s)"
  let ?s1 = "snd (createStatusTriggeredPromise (Load PaintingStable) (timeoutMs opts) None s)"
  have p: "statusTrigger ?s1 = Some (Load PaintingStable)"
    "statusTriggerResolvable ?s1 = Some ?k" "promises ?s1 (StatusRef ?k) = Pending"
    by (simp_all add: createStatusTriggeredPromise_fields createStatusTriggeredPromise_promises)
  have both: "resolvedAfter (fst ?W) (run pl (map StatusChange navs) (snd ?W))
            = (hasLoadStatus nav0 PaintingStable
               \<or> (top_nav nav0 \<noteq> None \<and> reportsStable nav0)
               \<or> list_ex reportsStable navs)
          \<and> (\<not> reportsStable n \<and> top_nav n \<noteq> None
                \<and> timeUntilReadyMs (getPaintStableStatus n) = Some d \<and> d \<noteq> 0 \<longrightarrow>
                resolvedAfter (fst ?W)
                  (run pl (map StatusChange navs
                           @ [StatusChange n,
                              TimerFires (nextTimer (run pl (map StatusChange navs) (snd ?W)))])
                     (snd ?W))
                \<and> (resolvedAfter (fst ?W) (run pl (map StatusChange navs) (snd ?W))
                    \<or> (nextTimer (run pl (map StatusChange navs) (snd ?W)), d)
                       \<in> set (timers (run pl (map StatusChange navs @ [StatusChange n])
                                         (snd ?W)))))"
  proof (cases "hasLoadStatus nav0 PaintingStable")
    case True
    then show ?thesis
      using unscoped t by (simp add: waitForLoad_Load resolvedAfter_def)
  next
    case False
    have W: "fst ?W = Inr (Waiting ?k)"
      "snd ?W = (if top_nav nav0 = None then ?s1 else snd (waitForPageLoaded nav0 ?s1))"
      using False unscoped t onLoadStatusChange_painting [where pl = pl, OF r p, of nav0]
      by (simp_all add: waitForLoad_Load)
    show ?thesis
    proof (cases "top_nav nav0 \<noteq> None \<and> reportsStable nav0")
      case True
      then have d: "statusTrigger (snd ?W) = None" "promises (snd ?W) (StatusRef ?k) = Fulfilled None"
        using W waitForPageLoaded_stable [OF p(2,3), of nav0] by auto
      show ?thesis
        using True painting_from_resolved [OF d, of pl navs] painting_from_resolved(2) [OF d, of pl navs n]
        by (simp add: W(1) resolvedAfter_def)
    next
      case no: False
      then have q: "statusTrigger (snd ?W) = Some (Load PaintingStable)"
        "statusTriggerResolvable (snd ?W) = Some ?k" "promises (snd ?W) (StatusRef ?k) = Pending"
        using W p waitForPageLoaded_not_stable [of nav0 ?s1] by auto
      show ?thesis
        using no False painting_from_pending(1) [where pl = pl, OF r q, of navs]
          painting_from_pending(2) [where pl = pl, OF r q, of n d navs]
          painting_from_pending(3) [where pl = pl, OF r q, of n d navs]
        by (auto simp add: W(1) resolvedAfter_def)
    qed
  qed
  from both t
  show "resolvedAfter (fst (waitForLoad pl nav0 (Load target) opts s))
              (run pl (map StatusChange navs) (snd (waitForLoad pl nav0 (Load target) opts s)))
            = (hasLoadStatus nav0 target
               \<or> (top_nav nav0 \<noteq> None \<and> reportsStable nav0)
               \<or> list_ex reportsStable navs)"
    by simp
  assume "\<not> reportsStable n \<and> top_nav n \<noteq> None
                \<and> timeUntilReadyMs (getPaintStableStatus n) = Some d \<and> d \<noteq> 0"
  with both t
  show "resolvedAfter (fst (waitForLoad pl nav0 (Load target) opts s))
                  (run pl (map StatusChange navs
                           @ [StatusChange n,
                              TimerFires (nextTimer (run pl (map StatusChange navs)
                                 (snd (waitForLoad pl nav0 (Load target) opts s))))])
                     (snd (waitForLoad pl nav0 (Load target) opts s)))"
    and "resolvedAfter (fst (waitForLoad pl nav0 (Load target) opts s))
                      (run pl (map StatusChange navs)
                         (snd (waitForLoad pl nav0 (Load target) opts s)))
                    \<or> (nextTimer (run pl (map StatusChange navs)
                                     (snd (waitForLoad pl nav0 (Load target) opts s))), d)
                       \<in> set (timers (run pl (map StatusChange navs @ [StatusChange n])
                                         (snd (waitForLoad pl nav0 (Load target) opts s))))"
    by blast+
qed

text \<open>
  On the responded page: a wait for \<^verbatim>\<open>DomContentLoaded\<close> resolves at the notification that
  shows it and not before; a wait for \<^verbatim>\<open>PaintingStable\<close> resolves at the notification that
  reports stable painting, stays pending at one that reports 500 ms left, and resolves when
  the timer armed by that one fires.
\<close>

theorem waitForLoad_resolves_iff_witness:
  "examplePipeline (Status DomContentLoaded) \<noteq> Some 0
   \<and> examplePipeline (Status PaintingStable) \<noteq> Some 0
   \<and> examplePipeline (Status PaintingStable) \<noteq> None
   \<and> \<not> truthy (sinceCommandId noOptions)
   \<and> \<not> hasLoadStatus responded DomContentLoaded
   \<and> \<not> reaches examplePipeline DomContentLoaded responded
   \<and> reaches examplePipeline DomContentLoaded domLoaded
   \<and> resolvedAfter
        (fst (waitForLoad examplePipeline responded (Load DomContentLoaded) noOptions newObserver))
        (run examplePipeline (map StatusChange [responded, domLoaded])
           (snd (waitForLoad examplePipeline responded (Load DomContentLoaded) noOptions
                   newObserver)))
   \<and> \<not> resolvedAfter
        (fst (waitForLoad examplePipeline responded (Load DomContentLoaded) noOptions newObserver))
        (run examplePipeline (map StatusChange [responded])
           (snd (waitForLoad examplePipeline responded (Load DomContentLoaded) noOptions
                   newObserver)))
   \<and> resolvedAfter
        (fst (waitForLoad examplePipeline responded (Load PaintingStable) noOptions newObserver))
        (run examplePipeline (map StatusChange [painted])
           (snd (waitForLoad examplePipeline responded (Load PaintingStable) noOptions
                   newObserver)))
   \<and> \<not> resolvedAfter
        (fst (waitForLoad examplePipeline responded (Load PaintingStable) noOptions newObserver))
        (run examplePipeline (map StatusChange [loaded 500])
           (snd (waitForLoad examplePipeline responded (Load PaintingStable) noOptions
                   newObserver)))
   \<and> (0, 500) \<in> set (timers (run examplePipeline [StatusChange (loaded 500)]
           (snd (waitForLoad examplePipeline responded (Load PaintingStable) noOptions
                   newObserver))))
   \<and> resolvedAfter
        (fst (waitForLoad examplePipeline responded (Load PaintingStable) noOptions newObserver))
        (run examplePipeline [StatusChange (loaded 500), TimerFires 0]
           (snd (waitForLoad examplePipeline responded (Load PaintingStable) noOptions
                   newObserver)))"
proof -
  have h1: "examplePipeline (Status DomContentLoaded) \<noteq> Some 0"
    and h2: "examplePipeline (Status PaintingStable) \<noteq> Some 0"
    and h2': "examplePipeline (Status PaintingStable) \<noteq> None"
    by (simp_all add: examplePipeline_def)
  have h3: "\<not> truthy (sinceCommandId noOptions)"
    by (simp add: noOptions_def)
  have a: "\<not> hasLoadStatus responded DomContentLoaded"
    "\<not> hasLoadStatus responded PaintingStable"
    by (simp_all add: responded_def timeline_def entry_def has_status_def)
  have b: "\<not> reaches examplePipeline DomContentLoaded responded"
    by (simp add: reaches_def outranks_def responded_def timeline_def entry_def
          examplePipeline_def)
  have c: "reaches examplePipeline DomContentLoaded domLoaded"
    by (simp add: reaches_def outranks_def domLoaded_def timeline_def entry_def
          examplePipeline_def)
  have d: "\<not> reportsStable responded" "reportsStable painted" "\<not> reportsStable (loaded 500)"
    "top_nav (loaded 500) \<noteq> None"
    "timeUntilReadyMs (getPaintStableStatus (loaded 500)) = Some 500"
    by (simp_all add: reportsStable_def responded_def painted_def loaded_def timeline_def
          notStable_def)
  have e: "nextTimer (snd (waitForLoad examplePipeline responded (Load PaintingStable) noOptions
                             newObserver)) = 0"
    by (simp add: eval_defs waitForPageLoaded_def setTimeout_def)
  let ?D = "waitForLoad examplePipeline responded (Load DomContentLoaded) noOptions newObserver"
  let ?P = "waitForLoad examplePipeline responded (Load PaintingStable) noOptions newObserver"
  have d1: "resolvedAfter (fst ?D)
              (run examplePipeline (map StatusChange [responded, domLoaded]) (snd ?D))"
    using a b c
      waitForLoad_resolves_iff [where pl = examplePipeline and target = DomContentLoaded,
        OF h1 h3, of responded newObserver "[responded, domLoaded]"]
    by simp
  have d2: "\<not> resolvedAfter (fst ?D)
              (run examplePipeline (map StatusChange [responded]) (snd ?D))"
    using a b
      waitForLoad_resolves_iff [where pl = examplePipeline and target = DomContentLoaded,
        OF h1 h3, of responded newObserver "[responded]"]
    by simp
  have p1: "resolvedAfter (fst ?P)
              (run examplePipeline (map StatusChange [painted]) (snd ?P))"
    using a d h2'
      waitForLoad_resolves_iff [where pl = examplePipeline and target = PaintingStable,
        OF h2 h3, of responded newObserver "[painted]" "loaded 500" 500]
    by simp
  have p2: "\<not> resolvedAfter (fst ?P)
              (run examplePipeline (map StatusChange [loaded 500]) (snd ?P))"
    using a d h2'
      waitForLoad_resolves_iff [where pl = examplePipeline and target = PaintingStable,
        OF h2 h3, of responded newObserver "[loaded 500]" "loaded 500" 500]
    by simp
  have p3: "\<not> resolvedAfter (fst ?P) (run examplePipeline (map StatusChange []) (snd ?P))
            \<and> resolvedAfter (fst ?P)
                (run examplePipeline
                   (map StatusChange []
                    @ [StatusChange (loaded 500),
                       TimerFires (nextTimer (run examplePipeline (map StatusChange [])
                                                (snd ?P)))])
                   (snd ?P))
            \<and> (resolvedAfter (fst ?P) (run examplePipeline (map StatusChange []) (snd ?P))
                \<or> (nextTimer (run examplePipeline (map StatusChange []) (snd ?P)), 500)
                   \<in> set (timers (run examplePipeline
                                     (map StatusChange [] @ [StatusChange (loaded 500)])
                                     (snd ?P))))"
    using a d h2'
      waitForLoad_resolves_iff [where pl = examplePipeline and target = PaintingStable,
        OF h2 h3, of responded newObserver "[]" "loaded 500" 500]
    by auto
  have r0: "run examplePipeline [] (snd ?P) = snd ?P"
    by (simp add: run_def)
  have p4: "(0, 500) \<in> set (timers (run examplePipeline [StatusChange (loaded 500)] (snd ?P)))"
    and p5: "resolvedAfter (fst ?P)
               (run examplePipeline [StatusChange (loaded 500), TimerFires 0] (snd ?P))"
    using p3 e by (auto simp add: r0)
  show ?thesis
    using h1 h2 h2' h3 a(1) b c d1 d2 p1 p2 p4 p5 by (intro conjI) assumption+
qed

text \<open>
  C1 as stated fails for \<^verbatim>\<open>PaintingStable\<close>, which is settled by the timeline's
  \<^verbatim>\<open>getPaintStableStatus\<close> and not by ranks: the wait registered on the responded page is
  pending, and resolves at the notification that reports stable painting, while no status map
  holds a milestone of the rank of \<^verbatim>\<open>PaintingStable\<close>.
\<close>

theorem waitForLoad_painting_stable_counterexample:
  "fst (waitForLoad examplePipeline responded (Load PaintingStable) noOptions newObserver)
     = Inr (Waiting 0)
   \<and> \<not> resolvedAfter
     (fst (waitForLoad examplePipeline responded (Load PaintingStable) noOptions newObserver))
     (snd (waitForLoad examplePipeline responded (Load PaintingStable) noOptions newObserver))
   \<and> resolvedAfter
     (fst (waitForLoad examplePipeline responded (Load PaintingStable) noOptions newObserver))
     (run examplePipeline (map StatusChange [painted])
        (snd (waitForLoad examplePipeline responded (Load PaintingStable) noOptions newObserver)))
   \<and> \<not> hasLoadStatus responded PaintingStable
   \<and> \<not> reaches examplePipeline PaintingStable responded
   \<and> \<not> reaches examplePipeline PaintingStable painted"
  by (simp add: resolvedAfter_def run_def eval_defs painted_def waitForPageLoaded_def
        setTimeout_def reaches_def outranks_def)

section \<open>Reachable states\<close>

text \<open>
  In every state that an observer reaches from its creation, the deferred of the status
  trigger it holds is one that it has created: the next deferred it creates is a new one.
\<close>

lemma tracksCreated_cases:
  "tracksCreated s = (statusTriggerResolvable s = None
                      \<or> (\<exists>k. statusTriggerResolvable s = Some k \<and> k < length (created s)))"
  by (auto simp: tracksCreated_def split: option.splits)

lemma resolvePendingStatus_trigger:
  "statusTriggerResolvable (resolvePendingStatus s) = None
   \<or> statusTriggerResolvable (resolvePendingStatus s) = statusTriggerResolvable s"
  by (auto simp: resolvePendingStatus_def Let_def resolve_def clearTimeout_def split: option.splits)

lemma tracksCreated_resolvePendingStatus:
  "tracksCreated s \<Longrightarrow> tracksCreated (resolvePendingStatus s)"
  using resolvePendingStatus_trigger [of s]
  by (auto simp: tracksCreated_cases resolvePendingStatus_fields)

lemma waitForPageLoaded_trigger:
  "statusTriggerResolvable (snd (waitForPageLoaded nav s)) = None
   \<or> statusTriggerResolvable (snd (waitForPageLoaded nav s)) = statusTriggerResolvable s"
  using resolvePendingStatus_trigger [of "clearTimeout (waitingForLoadTimeout s) s"]
  by (auto simp: waitForPageLoaded_def Let_def setTimeout_def clearTimeout_fields
        split: option.splits)

lemma onLoadStatusChange_trigger:
  "statusTriggerResolvable (snd (onLoadStatusChange pl nav s)) = None
   \<or> statusTriggerResolvable (snd (onLoadStatusChange pl nav s)) = statusTriggerResolvable s"
  using resolvePendingStatus_trigger [of s] waitForPageLoaded_trigger [of nav s]
  by (auto simp: onLoadStatusChange_def split: option.splits LocationStatus.splits)

lemma tracksCreated_onLoadStatusChange:
  "tracksCreated s \<Longrightarrow> tracksCreated (snd (onLoadStatusChange pl nav s))"
  using onLoadStatusChange_trigger [of pl nav s]
  by (auto simp: tracksCreated_cases onLoadStatusChange_fields)

lemma tracksCreated_createStatusTriggeredPromise:
  "tracksCreated (snd (createStatusTriggeredPromise status t since s))"
  by (simp add: tracksCreated_def createStatusTriggeredPromise_fields)

lemma tracksCreated_step:
  "tracksCreated s \<Longrightarrow> tracksCreated (step pl e s)"
proof (cases e)
  case (WillRunCommand c cs)
  assume "tracksCreated s"
  then show ?thesis
    using WillRunCommand by (auto simp: willRunCommand_def tracksCreated_cases split_beta)
next
  case (WaitForLocation n st opts)
  assume a: "tracksCreated s"
  show ?thesis
  proof (cases st)
    case (Load x)
    then show ?thesis using a WaitForLocation by (simp add: waitForLocation_def)
  next
    case (Trigger tr)
    then show ?thesis
      using a WaitForLocation
      by (simp add: waitForLocation_Trigger tracksCreated_createStatusTriggeredPromise)
  qed
next
  case (WaitForLoad n st opts)
  assume a: "tracksCreated s"
  show ?thesis
  proof (cases st)
    case (Trigger tr)
    then show ?thesis using a WaitForLoad by (simp add: waitForLoad_def)
  next
    case (Load x)
    then show ?thesis
      using a WaitForLoad
      by (simp add: waitForLoad_Load tracksCreated_createStatusTriggeredPromise
            tracksCreated_onLoadStatusChange)
  qed
next
  case (WaitForReady n)
  assume a: "tracksCreated s"
  then show ?thesis
    using WaitForReady
    by (simp add: waitForReady_def waitForLoad_Load tracksCreated_createStatusTriggeredPromise
          tracksCreated_onLoadStatusChange)
next
  case (WaitForNavigationResourceId n)
  assume "tracksCreated s"
  then show ?thesis
    using WaitForNavigationResourceId
    by (auto simp: waitForNavigationResourceId_def tracksCreated_cases)
next
  case (CancelWaiting m)
  assume "tracksCreated s"
  then show ?thesis
    using CancelWaiting by (auto simp: tracksCreated_cases cancelWaiting_fields)
next
  case (StatusChange n)
  assume "tracksCreated s"
  then show ?thesis
    using StatusChange by (simp add: tracksCreated_onLoadStatusChange)
next
  case (TimerFires h)
  assume a: "tracksCreated s"
  then have "tracksCreated (s\<lparr> timers := filter (\<lambda>x. fst x \<noteq> h) (timers s) \<rparr>)"
    by (auto simp: tracksCreated_cases)
  then show ?thesis
    using a TimerFires by (simp add: timerFires_def tracksCreated_resolvePendingStatus)
next
  case (PromiseTimesOut r)
  assume "tracksCreated s"
  then show ?thesis
    using PromiseTimesOut by (auto simp: promiseTimesOut_def tracksCreated_cases)
next
  case (ResourceIdSettles n outcome)
  assume "tracksCreated s"
  then show ?thesis
    using ResourceIdSettles by (auto simp: resourceIdSettles_def tracksCreated_cases)
qed

lemma tracksCreated_run:
  "tracksCreated s \<Longrightarrow> tracksCreated (run pl events s)"
  unfolding run_def
  by (induction events arbitrary: s) (simp_all add: tracksCreated_step)

lemma reachable_trigger_created:
  "statusTriggerResolvable (run pl events newObserver) = Some k \<Longrightarrow>
     k < length (created (run pl events newObserver))"
proof -
  have "tracksCreated newObserver"
    by (simp add: tracksCreated_def newObserver_def)
  then have "tracksCreated (run pl events newObserver)"
    by (rule tracksCreated_run)
  then show "statusTriggerResolvable (run pl events newObserver) = Some k \<Longrightarrow>
     k < length (created (run pl events newObserver))"
    by (simp add: tracksCreated_def)
qed

end
